theory Spec2Isabelle
  imports Main "HOL-Library.AList"
begin

section \<open>Progress tracker (progressBar.tsx)\<close>

text \<open>
  The module state of progressBar.tsx: the four module variables, and the number of
  reset timers that \<open>endProgress\<close> has scheduled with \<open>setTimeout\<close> and that have not
  fired yet. The listeners only re-render components and do not touch this state.
  JavaScript numbers are modelled as integers.
\<close>

record progress_state =
  prog_isTranslating :: bool
  prog_progress :: int
  prog_total :: int
  prog_current :: int
  prog_pendingResets :: nat

definition progress_init :: progress_state where
  "progress_init =
     \<lparr>prog_isTranslating = False, prog_progress = 0, prog_total = 0, prog_current = 0,
      prog_pendingResets = 0\<rparr>"

text \<open>
  \<open>Math.round((_current / _total) * 100)\<close> in the arithmetic of the code: the quotient
  is rounded to the nearest IEEE 754 double (53 significant bits, ties to even), the
  product with 100 is rounded again, and \<open>Math.round\<close> takes the floor of the sum with
  one half. A double is given by a numerator and a denominator. Counts are integers that a
  double holds exactly (below \<open>2^53\<close>), and no quotient of two of them is subnormal or
  overflows.
\<close>

function bits :: "int \<Rightarrow> nat" where
  "bits n = (if n \<le> 0 then 0 else Suc (bits (n div 2)))"
  by pat_completeness auto
termination
  by (relation "measure nat") auto

declare bits.simps [simp del]

definition round_half_even :: "int \<Rightarrow> int \<Rightarrow> int" where
  "round_half_even n d =
     (let q = n div d; r = n mod d
      in if 2 * r < d then q else if d < 2 * r then q + 1 else if even q then q else q + 1)"

text \<open>
  The double nearest to \<open>n / d\<close>, for positive \<open>n\<close> and \<open>d\<close>: with \<open>l\<close> the
  exponent of the leading bit of the quotient, the quotient is rounded to a multiple of
  \<open>2 ^ (l - 52)\<close>.
\<close>

definition to_double :: "int \<Rightarrow> int \<Rightarrow> int \<times> int" where
  "to_double n d =
     (let l0 = int (bits n) - int (bits d);
          l = (if (if 0 \<le> l0 then d * 2 ^ nat l0 \<le> n else d \<le> n * 2 ^ nat (- l0))
               then l0 else l0 - 1);
          e = l - 52
      in if 0 \<le> e
         then (round_half_even n (d * 2 ^ nat e) * 2 ^ nat e, 1)
         else (round_half_even (n * 2 ^ nat (- e)) d, 2 ^ nat (- e)))"

definition percent :: "int \<Rightarrow> int \<Rightarrow> int" where
  "percent c t =
     (if t > 0
      then if c = 0 then 0
           else let (a, b) = to_double \<bar>c\<bar> t;
                    (p, q) = to_double (a * 100) b
                in if 0 < c then (2 * p + q) div (2 * q) else (q - 2 * p) div (2 * q)
      else 0)"

definition startProgress :: "int \<Rightarrow> progress_state \<Rightarrow> progress_state" where
  "startProgress t s =
     s\<lparr>prog_isTranslating := True, prog_total := t, prog_current := 0, prog_progress := 0\<rparr>"

definition updateProgress :: "int option \<Rightarrow> progress_state \<Rightarrow> progress_state" where
  "updateProgress cur s =
     (let c = (case cur of Some c \<Rightarrow> c | None \<Rightarrow> prog_current s + 1)
      in s\<lparr>prog_current := c, prog_progress := percent c (prog_total s)\<rparr>)"

definition endProgress :: "progress_state \<Rightarrow> progress_state" where
  "endProgress s =
     s\<lparr>prog_isTranslating := False, prog_progress := 100,
       prog_pendingResets := Suc (prog_pendingResets s)\<rparr>"

text \<open>The callback that \<open>endProgress\<close> hands to \<open>setTimeout\<close>, run 500 ms later.\<close>

definition resetTimer :: "progress_state \<Rightarrow> progress_state" where
  "resetTimer s =
     s\<lparr>prog_progress := 0, prog_total := 0, prog_current := 0,
       prog_pendingResets := prog_pendingResets s - 1\<rparr>"

text \<open>\<open>TranslationProgressBar\<close>: the bar shows a width and a counter only when this holds.\<close>

definition showDeterminate :: "progress_state \<Rightarrow> bool" where
  "showDeterminate s = (prog_total s > 1)"

datatype progress_op = Start int | Update "int option" | End | TimerFired

fun progress_step :: "progress_op \<Rightarrow> progress_state \<Rightarrow> progress_state" where
  "progress_step (Start t) s = startProgress t s"
| "progress_step (Update cur) s = updateProgress cur s"
| "progress_step End s = endProgress s"
| "progress_step TimerFired s = resetTimer s"

fun progress_run :: "progress_op list \<Rightarrow> progress_state \<Rightarrow> progress_state" where
  "progress_run [] s = s"
| "progress_run (x # xs) s = progress_run xs (progress_step x s)"

definition progress_inv :: "progress_state \<Rightarrow> bool" where
  "progress_inv s = (prog_total s > 0 \<longrightarrow> 0 \<le> prog_current s \<and> prog_current s \<le> prog_total s)"

text \<open>
  An operation stays within the bounds of the running batch: an explicit position lies
  in \<open>0..total\<close>, an increment starts below \<open>total\<close>. Nothing in progressBar.tsx checks
  this; the callers in this repository respect it.
\<close>

fun op_in_bounds :: "progress_op \<Rightarrow> progress_state \<Rightarrow> bool" where
  "op_in_bounds (Update (Some c)) s = (prog_total s > 0 \<longrightarrow> 0 \<le> c \<and> c \<le> prog_total s)"
| "op_in_bounds (Update None) s = (prog_total s > 0 \<longrightarrow> prog_current s < prog_total s)"
| "op_in_bounds _ s = True"

fun ops_in_bounds :: "progress_op list \<Rightarrow> progress_state \<Rightarrow> bool" where
  "ops_in_bounds [] s = True"
| "ops_in_bounds (x # xs) s = (op_in_bounds x s \<and> ops_in_bounds xs (progress_step x s))"

section \<open>Selection mode (selectionMode.tsx)\<close>

text \<open>
  The module state of selectionMode.tsx. \<open>_selectedIds\<close> is a JavaScript \<open>Set\<close>: it
  has no duplicates and iterates in insertion order, so it is a list here. The two
  nullable strings are options. The listeners and the toast of \<open>toggleSelectionMode\<close> do
  not touch this state.
\<close>

record selection_state =
  isSelectionMode :: bool
  selectedIds :: "string list"
  currentChannelId :: "string option"
  lastSelectedId :: "string option"

definition selection_init :: selection_state where
  "selection_init =
     \<lparr>isSelectionMode = False, selectedIds = [], currentChannelId = None,
      lastSelectedId = None\<rparr>"

text \<open>\<open>Set.prototype.has\<close>, \<open>add\<close> and \<open>delete\<close>.\<close>

definition set_has :: "string list \<Rightarrow> string \<Rightarrow> bool" where
  "set_has ids m = (m \<in> set ids)"

definition set_add :: "string \<Rightarrow> string list \<Rightarrow> string list" where
  "set_add m ids = (if m \<in> set ids then ids else ids @ [m])"

definition set_delete :: "string \<Rightarrow> string list \<Rightarrow> string list" where
  "set_delete m ids = removeAll m ids"

text \<open>
  \<open>!x\<close> on a value of type \<open>string | null\<close> (and \<open>string | undefined\<close>): true for
  \<open>null\<close> and for the empty string.
\<close>

definition falsy :: "string option \<Rightarrow> bool" where
  "falsy x = (case x of None \<Rightarrow> True | Some s \<Rightarrow> s = [])"

definition toggleSelectionMode :: "selection_state \<Rightarrow> selection_state" where
  "toggleSelectionMode s =
     (let s1 = s\<lparr>isSelectionMode := \<not> isSelectionMode s\<rparr>
      in if \<not> isSelectionMode s1
         then s1\<lparr>selectedIds := [], currentChannelId := None, lastSelectedId := None\<rparr>
         else s1)"

definition exitSelectionMode :: "selection_state \<Rightarrow> selection_state" where
  "exitSelectionMode s =
     s\<lparr>isSelectionMode := False, selectedIds := [], currentChannelId := None,
       lastSelectedId := None\<rparr>"

definition isMessageSelected :: "selection_state \<Rightarrow> string \<Rightarrow> bool" where
  "isMessageSelected s messageId = set_has (selectedIds s) messageId"

definition toggleMessageSelection :: "string \<Rightarrow> string \<Rightarrow> selection_state \<Rightarrow> selection_state" where
  "toggleMessageSelection messageId channelId s =
     (if \<not> isSelectionMode s then s
      else
        let s1 = (if falsy (currentChannelId s) then s\<lparr>currentChannelId := Some channelId\<rparr>
                  else if currentChannelId s \<noteq> Some channelId
                  then s\<lparr>selectedIds := [], currentChannelId := Some channelId,
                         lastSelectedId := None\<rparr>
                  else s);
            s2 = (if set_has (selectedIds s1) messageId
                  then s1\<lparr>selectedIds := set_delete messageId (selectedIds s1)\<rparr>
                  else s1\<lparr>selectedIds := set_add messageId (selectedIds s1)\<rparr>)
        in s2\<lparr>lastSelectedId := Some messageId\<rparr>)"

definition getSelectedCount :: "selection_state \<Rightarrow> nat" where
  "getSelectedCount s = length (selectedIds s)"

datatype selection_op = Toggle | Select string string | Exit

fun selection_step :: "selection_op \<Rightarrow> selection_state \<Rightarrow> selection_state" where
  "selection_step Toggle s = toggleSelectionMode s"
| "selection_step (Select m c) s = toggleMessageSelection m c s"
| "selection_step Exit s = exitSelectionMode s"

fun selection_run :: "selection_op list \<Rightarrow> selection_state \<Rightarrow> selection_state" where
  "selection_run [] s = s"
| "selection_run (x # xs) s = selection_run xs (selection_step x s)"

text \<open>
  The select calls that took effect (issued while the mode was on) since the last time
  the mode was reset, oldest first, each with its message and channel argument. The
  accumulator is the list so far.
\<close>

fun effective_selects ::
  "selection_op list \<Rightarrow> selection_state \<Rightarrow> (string \<times> string) list \<Rightarrow> (string \<times> string) list"
where
  "effective_selects [] s acc = acc"
| "effective_selects (Select m c # xs) s acc =
     effective_selects xs (selection_step (Select m c) s)
       (if isSelectionMode s then acc @ [(m, c)] else acc)"
| "effective_selects (x # xs) s acc = effective_selects xs (selection_step x s) []"

text \<open>
  Following the words of the specification: among a list of select calls, those that
  followed a mode reset (no call before them) or a channel switch (a channel other than
  that of the call before).
\<close>

fun rebinding_selects :: "string option \<Rightarrow> (string \<times> string) list \<Rightarrow> (string \<times> string) list" where
  "rebinding_selects prev [] = []"
| "rebinding_selects prev ((m, c) # tr) =
     (if prev = Some c then [] else [(m, c)]) @ rebinding_selects (Some c) tr"

definition bound_channel_spec :: "(string \<times> string) list \<Rightarrow> string option" where
  "bound_channel_spec tr =
     (case rebinding_selects None tr of [] \<Rightarrow> None | r # rs \<Rightarrow> Some (snd (last (r # rs))))"

text \<open>
  The channel argument of the select call that put \<open>m\<close> into the set: the latest
  effective select call on \<open>m\<close> (a later one would have removed it again).
\<close>

definition channel_of_member :: "(string \<times> string) list \<Rightarrow> string \<Rightarrow> string option" where
  "channel_of_member tr m = map_of (rev tr) m"

fun channels_nonempty :: "selection_op list \<Rightarrow> bool" where
  "channels_nonempty [] = True"
| "channels_nonempty (Select m c # xs) = (c \<noteq> [] \<and> channels_nonempty xs)"
| "channels_nonempty (x # xs) = channels_nonempty xs"

text \<open>
  What holds between the selection state and the effective select calls since the last
  reset, in every reachable state.
\<close>

definition selection_inv :: "selection_state \<Rightarrow> (string \<times> string) list \<Rightarrow> bool" where
  "selection_inv s tr =
     ((\<not> isSelectionMode s \<longrightarrow> tr = [])
      \<and> currentChannelId s = (if tr = [] then None else Some (snd (last tr)))
      \<and> (\<forall>p \<in> set tr. snd p \<noteq> [])
      \<and> (\<forall>m \<in> set (selectedIds s). tr \<noteq> [] \<and> map_of (rev tr) m = Some (snd (last tr))))"

section \<open>Result cache (translationStore.ts)\<close>

record TranslationValue =
  tv_text :: string
  tv_sourceLanguage :: string

record SavedTranslation =
  sv_text :: string
  sv_sourceLanguage :: string
  sv_model :: "string option"
  sv_timestamp :: int

text \<open>
  A \<open>Record<string, SavedTranslation>\<close>: an object whose keys are unique and are
  enumerated in insertion order (an overwritten key keeps its place), so an association
  list. Keys that are array indices would be enumerated first, in numeric order; that
  changes the order of \<open>Object.entries\<close> only, on which no statement below depends.
  The keys are message identifiers, strings of decimal digits: none of them names a
  property that an object inherits, so a key that is not in the list reads as
  \<open>undefined\<close>.
\<close>

type_synonym saved_map = "(string \<times> SavedTranslation) list"

text \<open>
  The module state of translationStore.ts (\<open>_cache\<close>, \<open>_loaded\<close>), together with the
  one entry of the persistent store that the module uses (\<open>persisted\<close>, absent when
  \<open>None\<close>) and the number of \<open>get\<close> requests issued to that store so far.
\<close>

record store_state =
  cache :: saved_map
  loaded :: bool
  persisted :: "saved_map option"
  gets :: nat

definition fresh_store :: "saved_map option \<Rightarrow> store_state" where
  "fresh_store p = \<lparr>cache = [], loaded = False, persisted = p, gets = 0\<rparr>"

text \<open>
  Modelled from the spec: the persistent key-value store (\<open>DataStore\<close>, which
  translationStore.ts imports from \<open>@api/index\<close>), with \<open>get(key) -> value|absent\<close>,
  \<open>set(key, value)\<close> and \<open>delete(key)\<close>, each asynchronous and durable. Its requests
  take effect in the order in which they are issued, so each one is applied to
  \<open>persisted\<close> at the call, and a \<open>get\<close> delivers the value of that moment.
\<close>

definition DataStore_get :: "store_state \<Rightarrow> store_state \<times> saved_map option" where
  "DataStore_get s = (s\<lparr>gets := Suc (gets s)\<rparr>, persisted s)"

definition DataStore_set :: "saved_map \<Rightarrow> store_state \<Rightarrow> store_state" where
  "DataStore_set v s = s\<lparr>persisted := Some v\<rparr>"

definition DataStore_del :: "store_state \<Rightarrow> store_state" where
  "DataStore_del s = s\<lparr>persisted := None\<rparr>"

text \<open>
  \<open>ensureLoaded\<close> in two pieces, split where it awaits: the part up to the call of
  \<open>DataStore.get\<close> is in \<open>task_step\<close> and \<open>ensureLoaded\<close> below, the part that runs
  when the value arrives is \<open>ensureLoaded_resume\<close> (\<open>_cache = value ?? {}\<close>,
  \<open>_loaded = true\<close>).
\<close>

definition ensureLoaded_resume :: "saved_map option \<Rightarrow> store_state \<Rightarrow> store_state" where
  "ensureLoaded_resume v s =
     s\<lparr>cache := (case v of None \<Rightarrow> [] | Some m \<Rightarrow> m), loaded := True\<rparr>"

text \<open>The bodies of \<open>save\<close> and \<open>delete\<close> after \<open>await ensureLoaded()\<close>.\<close>

definition save_body ::
  "string \<Rightarrow> TranslationValue \<Rightarrow> string option \<Rightarrow> int \<Rightarrow> store_state \<Rightarrow> store_state" where
  "save_body messageId result mdl now s =
     (let saved = \<lparr>sv_text = tv_text result, sv_sourceLanguage = tv_sourceLanguage result,
                   sv_model = mdl, sv_timestamp = now\<rparr>;
          s1 = s\<lparr>cache := AList.update messageId saved (cache s)\<rparr>
      in DataStore_set (cache s1) s1)"

definition delete_body :: "string \<Rightarrow> store_state \<Rightarrow> store_state" where
  "delete_body messageId s =
     (let s1 = s\<lparr>cache := AList.delete messageId (cache s)\<rparr>
      in DataStore_set (cache s1) s1)"

subsection \<open>One call at a time\<close>

text \<open>
  Each operation run to completion before the next one starts (every call awaited).
  \<open>now\<close> is the value that \<open>Date.now()\<close> returns inside \<open>save\<close>.
\<close>

definition ensureLoaded :: "store_state \<Rightarrow> store_state" where
  "ensureLoaded s =
     (if loaded s then s
      else let (s1, v) = DataStore_get s in ensureLoaded_resume v s1)"

definition TranslationStore_get :: "store_state \<Rightarrow> string \<Rightarrow> SavedTranslation option" where
  "TranslationStore_get s messageId = map_of (cache s) messageId"

definition TranslationStore_save ::
  "string \<Rightarrow> TranslationValue \<Rightarrow> string option \<Rightarrow> int \<Rightarrow> store_state \<Rightarrow> store_state" where
  "TranslationStore_save messageId result mdl now s =
     save_body messageId result mdl now (ensureLoaded s)"

definition TranslationStore_delete :: "string \<Rightarrow> store_state \<Rightarrow> store_state" where
  "TranslationStore_delete messageId s = delete_body messageId (ensureLoaded s)"

definition TranslationStore_clearAll :: "store_state \<Rightarrow> store_state" where
  "TranslationStore_clearAll s = DataStore_del (s\<lparr>cache := []\<rparr>)"

text \<open>
  \<open>Array.prototype.sort\<close> is stable; with the comparator \<open>b.timestamp - a.timestamp\<close>
  it is the stable sort on the negated timestamp.
\<close>

definition TranslationStore_getAll :: "store_state \<Rightarrow> store_state \<times> saved_map" where
  "TranslationStore_getAll s =
     (let s1 = ensureLoaded s
      in (s1, sort_key (\<lambda>e. - sv_timestamp (snd e)) (cache s1)))"

definition TranslationStore_count :: "store_state \<Rightarrow> nat" where
  "TranslationStore_count s = length (cache s)"

definition TranslationStore_load :: "store_state \<Rightarrow> store_state" where
  "TranslationStore_load s = ensureLoaded s"

datatype store_op =
  Save string TranslationValue "string option" int
| Delete string
| ClearAll

fun store_step :: "store_op \<Rightarrow> store_state \<Rightarrow> store_state" where
  "store_step (Save messageId result mdl now) s = TranslationStore_save messageId result mdl now s"
| "store_step (Delete messageId) s = TranslationStore_delete messageId s"
| "store_step ClearAll s = TranslationStore_clearAll s"

fun store_run :: "store_op list \<Rightarrow> store_state \<Rightarrow> store_state" where
  "store_run [] s = s"
| "store_run (x # xs) s = store_run xs (store_step x s)"

text \<open>
  Following the words of the specification: the net effect of a sequence of operations
  on a mapping from message identifier to saved translation.
\<close>

fun net_effect ::
  "store_op list \<Rightarrow> (string \<rightharpoonup> SavedTranslation) \<Rightarrow> (string \<rightharpoonup> SavedTranslation)" where
  "net_effect [] m = m"
| "net_effect (Save messageId result mdl now # xs) m =
     net_effect xs
       (m(messageId \<mapsto> \<lparr>sv_text = tv_text result, sv_sourceLanguage = tv_sourceLanguage result,
                         sv_model = mdl, sv_timestamp = now\<rparr>))"
| "net_effect (Delete messageId # xs) m = net_effect xs (m(messageId := None))"
| "net_effect (ClearAll # xs) m = net_effect xs Map.empty"

text \<open>The entries the store stands for: the cache once hydrated, the persisted mapping before.\<close>

definition store_entries :: "store_state \<Rightarrow> saved_map" where
  "store_entries s =
     (if loaded s then cache s else (case persisted s of None \<Rightarrow> [] | Some m \<Rightarrow> m))"

definition store_ok :: "store_state \<Rightarrow> bool" where
  "store_ok s = ((\<not> loaded s \<longrightarrow> cache s = []) \<and> distinct (map fst (store_entries s)))"

subsection \<open>Calls in flight together\<close>

text \<open>
  The calls are asynchronous functions on one thread: a call runs until it awaits, and
  other calls run in between. A task is a call with the place where it is suspended;
  \<open>task_step\<close> runs it to its next await. \<open>AwaitingGet v\<close> is a call suspended inside
  \<open>ensureLoaded\<close> on a \<open>DataStore.get\<close> that will deliver \<open>v\<close>.
\<close>

datatype store_call =
  CallSave string TranslationValue "string option" int
| CallDelete string
| CallClearAll
| CallGetAll
| CallLoad

datatype task_pc = NotStarted | AwaitingGet "saved_map option" | AfterEnsureLoaded | Finished

fun task_step :: "store_call \<Rightarrow> task_pc \<Rightarrow> store_state \<Rightarrow> task_pc \<times> store_state" where
  "task_step CallClearAll NotStarted s = (Finished, TranslationStore_clearAll s)"
| "task_step call NotStarted s =
     (if loaded s then (AfterEnsureLoaded, s)
      else let (s1, v) = DataStore_get s in (AwaitingGet v, s1))"
| "task_step call (AwaitingGet v) s = (AfterEnsureLoaded, ensureLoaded_resume v s)"
| "task_step (CallSave messageId result mdl now) AfterEnsureLoaded s =
     (Finished, save_body messageId result mdl now s)"
| "task_step (CallDelete messageId) AfterEnsureLoaded s = (Finished, delete_body messageId s)"
| "task_step call AfterEnsureLoaded s = (Finished, s)"
| "task_step call Finished s = (Finished, s)"

text \<open>A schedule names, step by step, the task that runs next.\<close>

fun sched_step ::
  "nat \<Rightarrow> (store_call \<times> task_pc) list \<times> store_state \<Rightarrow> (store_call \<times> task_pc) list \<times> store_state"
where
  "sched_step i (tasks, s) =
     (if i < length tasks
      then let (call, pc) = tasks ! i; (pc', s') = task_step call pc s
           in (tasks[i := (call, pc')], s')
      else (tasks, s))"

fun sched_run ::
  "nat list \<Rightarrow> (store_call \<times> task_pc) list \<times> store_state \<Rightarrow> (store_call \<times> task_pc) list \<times> store_state"
where
  "sched_run [] cfg = cfg"
| "sched_run (i # is) cfg = sched_run is (sched_step i cfg)"

section \<open>Batch translation (handleTranslateSelected in selectionMode.tsx)\<close>

record message =
  msg_id :: string
  msg_content :: string

text \<open>A thrown value: an instance of \<open>Error\<close> with its message, or anything else.\<close>

datatype thrown = Error string | NonError

datatype toast_type = MESSAGE | SUCCESS | FAILURE

text \<open>
  What the handler does to the outside, in order: \<open>startProgress\<close>, the call of the
  provider, \<open>handleTranslate\<close>, \<open>TranslationStore.save\<close>, \<open>updateProgress\<close>,
  \<open>showToast\<close>, \<open>endProgress\<close>, \<open>exitSelectionMode\<close>.
\<close>

datatype event =
  ProgressStarted int
| Translate string string
| Shown string TranslationValue
| Saved string TranslationValue "string option"
| Updated int
| Toast string toast_type
| Ended
| Exited

text \<open>
  What happens while the handler is suspended at \<open>await translate(...)\<close>: a reset timer
  left by an earlier \<open>endProgress\<close> fires, the \<open>DataStore.get\<close> of a store call in flight
  (given by its position among the calls in flight) delivers its value, or another
  handler or the user calls the progress tracker, the selection functions or the store.
\<close>

datatype ext_event =
  TimerFires
| GetResolves nat
| OtherProgress progress_op
| OtherSelection selection_op
| OtherStore store_call

text \<open>
  What the handler reads and does not own. \<open>translate\<close> is the provider that
  selectionMode.tsx imports from utils.ts, taken as given: \<open>translate e i direction text\<close>
  is the outcome of the \<open>i\<close>-th call of the batch, which may differ from call to call
  for the same text. \<open>between e i\<close> are the events that arrive, in order, while the handler
  awaits that call. \<open>dateNow e i\<close> is the value of \<open>Date.now()\<close> inside the \<open>i\<close>-th
  save. \<open>service\<close> and \<open>openrouterModel\<close> are the settings of these names.
\<close>

record batch_env =
  getMessages :: "string \<Rightarrow> message list"
  translate :: "nat \<Rightarrow> string \<Rightarrow> string \<Rightarrow> thrown + TranslationValue"
  between :: "nat \<Rightarrow> ext_event list"
  dateNow :: "nat \<Rightarrow> int"
  service :: string
  openrouterModel :: "string option"

text \<open>
  The state the handler works on: the three modules' states, the store calls in flight
  (each with the place where it is suspended, oldest first), the \<open>isTranslating\<close> state of
  the component, and the events so far.
\<close>

record world =
  w_selection :: selection_state
  w_progress :: progress_state
  w_store :: store_state
  w_tasks :: "(store_call \<times> task_pc) list"
  w_isTranslating :: bool
  w_trace :: "event list"

text \<open>Decimal digits of a number, as a template literal prints it.\<close>

definition digit_char :: "nat \<Rightarrow> char" where
  "digit_char d = ''0123456789'' ! d"

fun string_of_nat :: "nat \<Rightarrow> string" where
  "string_of_nat n =
     (if 10 \<le> n then string_of_nat (n div 10) @ [digit_char (n mod 10)]
      else [digit_char n])"

declare string_of_nat.simps [simp del]

definition savedModel :: "batch_env \<Rightarrow> string option" where
  "savedModel e = (if service e = ''openrouter'' then openrouterModel e else None)"

subsection \<open>Store calls that are not awaited\<close>

text \<open>
  A call of the store that nobody awaits runs up to its first await at once (inside
  \<open>ensureLoaded\<close>: it returns if \<open>_loaded\<close> is set, and issues \<open>DataStore.get\<close> otherwise)
  and stays in flight.
\<close>

definition start_call :: "store_call \<Rightarrow> world \<Rightarrow> world" where
  "start_call call w =
     (let (pc, s) = task_step call NotStarted (w_store w)
      in w\<lparr>w_store := s, w_tasks := w_tasks w @ [(call, pc)]\<rparr>)"

text \<open>
  The continuations that are ready run in the order in which their calls were made, once
  the running code suspends: a call whose \<open>ensureLoaded\<close> has returned goes on with its
  body. A call that waits for \<open>DataStore.get\<close> is not ready.
\<close>

fun run_ready ::
  "(store_call \<times> task_pc) list \<Rightarrow> store_state \<Rightarrow> (store_call \<times> task_pc) list \<times> store_state"
where
  "run_ready [] s = ([], s)"
| "run_ready ((call, pc) # tasks) s =
     (if pc = AfterEnsureLoaded
      then let (pc', s') = task_step call pc s;
               (tasks', s'') = run_ready tasks s'
           in ((call, pc') # tasks', s'')
      else let (tasks', s'') = run_ready tasks s
           in ((call, pc) # tasks', s''))"

definition drain :: "world \<Rightarrow> world" where
  "drain w =
     (let (tasks, s) = run_ready (w_tasks w) (w_store w)
      in w\<lparr>w_tasks := tasks, w_store := s\<rparr>)"

text \<open>A reset timer can fire only if one is pending.\<close>

definition fire_timer :: "progress_state \<Rightarrow> progress_state" where
  "fire_timer p = (if 0 < prog_pendingResets p then resetTimer p else p)"

fun apply_event :: "ext_event \<Rightarrow> world \<Rightarrow> world" where
  "apply_event TimerFires w = w\<lparr>w_progress := fire_timer (w_progress w)\<rparr>"
| "apply_event (GetResolves j) w =
     (if j < length (w_tasks w)
      then (case snd (w_tasks w ! j) of
              AwaitingGet v \<Rightarrow>
                (let (tasks, s) = sched_step j (w_tasks w, w_store w)
                 in w\<lparr>w_tasks := tasks, w_store := s\<rparr>)
            | _ \<Rightarrow> w)
      else w)"
| "apply_event (OtherProgress TimerFired) w = w\<lparr>w_progress := fire_timer (w_progress w)\<rparr>"
| "apply_event (OtherProgress x) w = w\<lparr>w_progress := progress_step x (w_progress w)\<rparr>"
| "apply_event (OtherSelection x) w = w\<lparr>w_selection := selection_step x (w_selection w)\<rparr>"
| "apply_event (OtherStore call) w = start_call call w"

text \<open>
  The handler suspended while the events \<open>evs\<close> arrive: the ready continuations run
  first, and again after each event.
\<close>

definition suspended :: "ext_event list \<Rightarrow> world \<Rightarrow> world" where
  "suspended evs w = foldl (\<lambda>w' ev. drain (apply_event ev w')) (drain w) evs"

text \<open>
  After the handler has returned: the ready continuations run, and every
  \<open>DataStore.get\<close> still outstanding delivers, in the order of the calls.
\<close>

definition settle :: "world \<Rightarrow> world" where
  "settle w = suspended (map GetResolves [0..<length (w_tasks w)]) w"

subsection \<open>The handler\<close>

text \<open>
  The body of the loop after \<open>await translate(...)\<close> has returned \<open>tv\<close>:
  \<open>handleTranslate\<close>, the call of \<open>TranslationStore.save\<close>, which the handler does not
  await, and \<open>updateProgress(i + 1)\<close>.
\<close>

definition item_done :: "batch_env \<Rightarrow> nat \<Rightarrow> message \<Rightarrow> TranslationValue \<Rightarrow> world \<Rightarrow> world" where
  "item_done e i msg tv w =
     (let w1 = start_call (CallSave (msg_id msg) tv (savedModel e) (dateNow e i)) w
      in w1\<lparr>w_progress := updateProgress (Some (int i + 1)) (w_progress w1),
            w_trace := w_trace w1 @ [Shown (msg_id msg) tv, Saved (msg_id msg) tv (savedModel e),
                                     Updated (int i + 1)]\<rparr>)"

text \<open>
  The \<open>for\<close> loop from index \<open>i\<close> over the messages that remain: the provider is
  called, the handler is suspended until the outcome is there, and the outcome is either
  a value thrown, which ends the loop and is the second component of the result, or a
  translation.
\<close>

fun translate_loop :: "batch_env \<Rightarrow> message list \<Rightarrow> nat \<Rightarrow> world \<Rightarrow> world \<times> thrown option" where
  "translate_loop e [] i w = (w, None)"
| "translate_loop e (msg # msgs) i w =
     (let w1 = w\<lparr>w_trace := w_trace w @ [Translate ''received'' (msg_content msg)]\<rparr>;
          w2 = suspended (between e i) w1
      in case translate e i ''received'' (msg_content msg) of
           Inl err \<Rightarrow> (w2, Some err)
         | Inr tv \<Rightarrow> translate_loop e msgs (Suc i) (item_done e i msg tv w2))"

text \<open>
  \<open>messages.filter(m => _selectedIds.has(m.id) && m.content)\<close> over the message list of
  the channel.
\<close>

definition selectedMessages :: "batch_env \<Rightarrow> world \<Rightarrow> message list" where
  "selectedMessages e w =
     filter (\<lambda>m. set_has (selectedIds (w_selection w)) (msg_id m) \<and> msg_content m \<noteq> [])
       (getMessages e (case currentChannelId (w_selection w) of Some c \<Rightarrow> c | None \<Rightarrow> []))"

text \<open>
  \<open>channelId\<close> and \<open>selectedCount\<close> are what \<open>useSelectionState\<close> returned at the last
  render; every change of the selection notifies the listener that re-renders, so they
  are read from the selection state.
\<close>

definition handleTranslateSelected :: "batch_env \<Rightarrow> world \<Rightarrow> world" where
  "handleTranslateSelected e w =
     (if falsy (currentChannelId (w_selection w)) \<or> getSelectedCount (w_selection w) = 0 then w
      else
        let msgs = selectedMessages e w;
            w1 = w\<lparr>w_isTranslating := True,
                   w_progress := startProgress (int (length msgs)) (w_progress w),
                   w_trace := w_trace w @ [ProgressStarted (int (length msgs))]\<rparr>;
            (w2, err) = translate_loop e msgs 0 w1;
            w3 = w2\<lparr>w_trace := w_trace w2 @
                   [case err of
                      None \<Rightarrow>
                        Toast (''Translated '' @ string_of_nat (length msgs) @ '' messages'') SUCCESS
                    | Some (Error m) \<Rightarrow> Toast m FAILURE
                    | Some NonError \<Rightarrow> Toast ''Translation failed'' FAILURE]\<rparr>
        in w3\<lparr>w_progress := endProgress (w_progress w3),
              w_isTranslating := False,
              w_selection := exitSelectionMode (w_selection w3),
              w_trace := w_trace w3 @ [Ended, Exited]\<rparr>)"

text \<open>
  For stating what a batch does: the events of items \<open>i, i + 1, ...\<close> translated with
  the results \<open>r i, r (i + 1), ...\<close>, the entries that their saves write, and what writing
  an entry means: the entry is in the cache, and the cache is what is persisted.
\<close>

fun items_trace :: "batch_env \<Rightarrow> (nat \<Rightarrow> TranslationValue) \<Rightarrow> nat \<Rightarrow> message list \<Rightarrow> event list" where
  "items_trace e r i [] = []"
| "items_trace e r i (msg # msgs) =
     [Translate ''received'' (msg_content msg), Shown (msg_id msg) (r i),
      Saved (msg_id msg) (r i) (savedModel e), Updated (int i + 1)]
     @ items_trace e r (Suc i) msgs"

fun saved_entries :: "batch_env \<Rightarrow> (nat \<Rightarrow> TranslationValue) \<Rightarrow> nat \<Rightarrow> message list \<Rightarrow> saved_map" where
  "saved_entries e r i [] = []"
| "saved_entries e r i (msg # msgs) =
     (msg_id msg,
      \<lparr>sv_text = tv_text (r i), sv_sourceLanguage = tv_sourceLanguage (r i),
       sv_model = savedModel e, sv_timestamp = dateNow e i\<rparr>)
     # saved_entries e r (Suc i) msgs"

definition store_put :: "string \<times> SavedTranslation \<Rightarrow> store_state \<Rightarrow> store_state" where
  "store_put entry s =
     s\<lparr>cache := AList.update (fst entry) (snd entry) (cache s),
       persisted := Some (AList.update (fst entry) (snd entry) (cache s))\<rparr>"

definition count_ended :: "event list \<Rightarrow> nat" where
  "count_ended evs = length (filter (\<lambda>ev. ev = Ended) evs)"

definition count_saved :: "event list \<Rightarrow> nat" where
  "count_saved evs = length (filter (\<lambda>ev. case ev of Saved _ _ _ \<Rightarrow> True | _ \<Rightarrow> False) evs)"

definition count_translate :: "event list \<Rightarrow> nat" where
  "count_translate evs =
     length (filter (\<lambda>ev. case ev of Translate _ _ \<Rightarrow> True | _ \<Rightarrow> False) evs)"

text \<open>
  Nothing but the batch touches the progress tracker during its first \<open>n\<close> provider
  calls: no reset timer is pending at the start, and nobody else calls the tracker.
\<close>

definition other_progress :: "ext_event \<Rightarrow> bool" where
  "other_progress ev = (case ev of OtherProgress _ \<Rightarrow> True | _ \<Rightarrow> False)"

definition progress_undisturbed :: "batch_env \<Rightarrow> nat \<Rightarrow> world \<Rightarrow> bool" where
  "progress_undisturbed e n w =
     (prog_pendingResets (w_progress w) = 0
      \<and> list_all (\<lambda>i. list_all (\<lambda>ev. \<not> other_progress ev) (between e i)) [0..<n])"

text \<open>
  Nothing but the batch touches the store during its first \<open>n\<close> provider calls: the
  store is hydrated at the start (index.tsx loads it when the plugin starts), no store
  call is in flight then, and nobody else calls the store.
\<close>

definition other_store :: "ext_event \<Rightarrow> bool" where
  "other_store ev = (case ev of OtherStore _ \<Rightarrow> True | _ \<Rightarrow> False)"

definition store_undisturbed :: "batch_env \<Rightarrow> nat \<Rightarrow> world \<Rightarrow> bool" where
  "store_undisturbed e n w =
     (loaded (w_store w)
      \<and> list_all (\<lambda>t. snd t = Finished) (w_tasks w)
      \<and> list_all (\<lambda>i. list_all (\<lambda>ev. \<not> other_store ev) (between e i)) [0..<n])"

text \<open>
  A hydrated store whose calls in flight are all past \<open>ensureLoaded\<close>, and the store once
  their bodies have run.
\<close>

definition calm :: "world \<Rightarrow> bool" where
  "calm w =
     (loaded (w_store w)
      \<and> list_all (\<lambda>t. snd t = Finished \<or> snd t = AfterEnsureLoaded) (w_tasks w))"

definition effective_store :: "world \<Rightarrow> store_state" where
  "effective_store w = snd (run_ready (w_tasks w) (w_store w))"

text \<open>
  The plugin after its start, with the store loaded. A channel with three messages; the
  two with content are selected, the later one first; the provider succeeds.
\<close>

definition world_init :: world where
  "world_init =
     \<lparr>w_selection = selection_init, w_progress = progress_init,
      w_store = TranslationStore_load (fresh_store None), w_tasks = [],
      w_isTranslating = False, w_trace = []\<rparr>"

definition demo_env :: batch_env where
  "demo_env =
     \<lparr>getMessages = (\<lambda>c. if c = ''c1''
         then [\<lparr>msg_id = ''m1'', msg_content = ''hello''\<rparr>,
               \<lparr>msg_id = ''m9'', msg_content = ''''\<rparr>,
               \<lparr>msg_id = ''m2'', msg_content = ''world''\<rparr>]
         else []),
      translate = (\<lambda>i d t. Inr \<lparr>tv_text = t @ ''!'', tv_sourceLanguage = ''en''\<rparr>),
      between = (\<lambda>i. if i = 1 then [TimerFires, OtherSelection Exit] else []),
      dateNow = (\<lambda>i. 1000 + int i),
      service = ''google'',
      openrouterModel = None\<rparr>"

definition demo_world :: world where
  "demo_world =
     world_init\<lparr>w_selection :=
       selection_run [Toggle, Select ''m2'' ''c1'', Select ''m9'' ''c1'', Select ''m1'' ''c1'']
         selection_init\<rparr>"

text \<open>
  A channel with seven messages: five are selected and have content, one is selected and
  empty, one is not selected. The third call of the provider fails.
\<close>

definition demo5_env :: batch_env where
  "demo5_env =
     \<lparr>getMessages = (\<lambda>c. if c = ''c1''
         then [\<lparr>msg_id = ''m0'', msg_content = ''z''\<rparr>,
               \<lparr>msg_id = ''m1'', msg_content = ''a''\<rparr>, \<lparr>msg_id = ''m2'', msg_content = ''b''\<rparr>,
               \<lparr>msg_id = ''m9'', msg_content = ''''\<rparr>,
               \<lparr>msg_id = ''m3'', msg_content = ''c''\<rparr>, \<lparr>msg_id = ''m4'', msg_content = ''d''\<rparr>,
               \<lparr>msg_id = ''m5'', msg_content = ''e''\<rparr>]
         else []),
      translate = (\<lambda>i d t. if i = 2 then Inl (Error ''quota'')
                            else Inr \<lparr>tv_text = t @ ''!'', tv_sourceLanguage = ''en''\<rparr>),
      between = (\<lambda>i. if i = 1 then [TimerFires, OtherSelection (Select ''m0'' ''c1'')] else []),
      dateNow = (\<lambda>i. 1000 + int i),
      service = ''openrouter'',
      openrouterModel = Some ''gpt''\<rparr>"

definition demo5_world :: world where
  "demo5_world =
     world_init\<lparr>w_selection :=
       selection_run [Toggle, Select ''m1'' ''c1'', Select ''m2'' ''c1'', Select ''m9'' ''c1'',
                      Select ''m3'' ''c1'', Select ''m4'' ''c1'', Select ''m5'' ''c1'']
         selection_init\<rparr>"

section \<open>LLM backend (openrouter.ts and the native helpers)\<close>

text \<open>
  Strings are lists of 8-bit characters here; the white space that \<open>trim\<close> removes is
  the part of JavaScript's white space and line terminators that lies in that range.
\<close>

definition is_js_space :: "char \<Rightarrow> bool" where
  "is_js_space c = (of_char c \<in> {9 :: nat, 10, 11, 12, 13, 32, 160})"

definition js_trim :: "string \<Rightarrow> string" where
  "js_trim s = rev (dropWhile is_js_space (rev (dropWhile is_js_space s)))"

text \<open>A status code in a template literal.\<close>

definition string_of_int :: "int \<Rightarrow> string" where
  "string_of_int status =
     (if 0 \<le> status then string_of_nat (nat status)
      else CHR ''-'' # string_of_nat (nat (- status)))"

text \<open>A value that \<open>JSON.parse\<close> returns; \<open>undefined\<close> is \<open>None\<close> of \<open>json option\<close>.\<close>

datatype json =
  JNull
| JBool bool
| JNum int
| JStr string
| JArr "json list"
| JObj "(string \<times> json) list"

text \<open>
  \<open>v[k]\<close> for a value that is neither \<open>null\<close> nor \<open>undefined\<close>, for the keys that
  openrouter.ts reads: a property name, or the index \<open>0\<close>. The keys of a parsed
  object are unique.
\<close>

fun get_prop :: "json \<Rightarrow> string \<Rightarrow> json option" where
  "get_prop (JObj kvs) k = map_of kvs k"
| "get_prop (JArr xs) k = (if k = ''0'' then (case xs of [] \<Rightarrow> None | x # _ \<Rightarrow> Some x) else None)"
| "get_prop (JStr s) k = (if k = ''0'' then (case s of [] \<Rightarrow> None | c # _ \<Rightarrow> Some (JStr [c])) else None)"
| "get_prop v k = None"

text \<open>Optional chaining \<open>v?.[k]\<close>.\<close>

definition opt_chain :: "json option \<Rightarrow> string \<Rightarrow> json option" where
  "opt_chain v k = (case v of None \<Rightarrow> None | Some JNull \<Rightarrow> None | Some x \<Rightarrow> get_prop x k)"

text \<open>\<open>!v\<close>.\<close>

definition js_falsy :: "json option \<Rightarrow> bool" where
  "js_falsy v =
     (case v of None \<Rightarrow> True | Some JNull \<Rightarrow> True | Some (JBool b) \<Rightarrow> \<not> b
      | Some (JNum n) \<Rightarrow> n = 0 | Some (JStr s) \<Rightarrow> s = [] | Some _ \<Rightarrow> False)"

fun json_string :: "json \<Rightarrow> string option" where
  "json_string (JStr s) = Some s"
| "json_string v = None"

text \<open>
  \<open>content.match(/\[[\s\S]*\]/)\<close>: from the first opening bracket to the last closing
  bracket after it.
\<close>

definition match_json_array :: "string \<Rightarrow> string option" where
  "match_json_array content =
     (case dropWhile (\<lambda>c. c \<noteq> CHR ''['') content of
        [] \<Rightarrow> None
      | b # rest \<Rightarrow>
          if CHR '']'' \<in> set rest
          then Some (b # rev (dropWhile (\<lambda>c. c \<noteq> CHR '']'') (rev rest)))
          else None)"

text \<open>
  A setting as \<open>normalizeValue\<close> takes it: a string, a legacy object with a \<open>value\<close>
  property, or anything else.
\<close>

datatype setting_value = StringValue string | ObjectValue string | OtherValue

definition normalizeValue :: "setting_value \<Rightarrow> string \<Rightarrow> string" where
  "normalizeValue v fallback =
     (case v of StringValue s \<Rightarrow> s | ObjectValue x \<Rightarrow> x | OtherValue \<Rightarrow> fallback)"

record OpenRouterModel =
  m_id :: string
  m_name :: string
  m_pricing :: "(string \<times> string) option"

text \<open>
  The settings that openrouter.ts reads and writes. \<open>llm_openrouterModel\<close> is the
  setting \<open>openrouterModel\<close>, at the type that \<open>normalizeValue\<close> takes.
\<close>

record llm_settings =
  openrouterApiKey :: "string option"
  llm_openrouterModel :: setting_value
  openrouterModelsCache :: "OpenRouterModel list option"

record http_request =
  req_url :: string
  req_method :: string
  req_headers :: "(string \<times> string) list"
  req_body :: "string option"

text \<open>
  What the backend uses of its platform: \<open>fetch\<close> followed by \<open>res.text()\<close> (the status and
  the body, or \<open>String(e)\<close> of what was thrown), \<open>JSON.parse\<close> (the value, or the message of
  the \<open>SyntaxError\<close>), \<open>JSON.parse\<close> at the declared type \<open>OpenRouterModelsResponse\<close>,
  \<open>JSON.stringify\<close> without and with an indentation of 2, \<open>localeCompare\<close>, and the
  message of the \<open>TypeError\<close> for reading a property of \<open>null\<close>.
\<close>

record llm_env =
  fetch :: "http_request \<Rightarrow> string + (int \<times> string)"
  parseJSON :: "string \<Rightarrow> string + json"
  parseModelsResponse :: "string \<Rightarrow> string + OpenRouterModel list"
  stringify :: "json \<Rightarrow> string"
  stringifyIndented :: "json \<Rightarrow> string"
  localeCompare :: "string \<Rightarrow> string \<Rightarrow> int"
  nullReadMessage :: string

datatype llm_event =
  Notified string toast_type
| Requested http_request
| Warned nat nat
| ErrorLogged

subsection \<open>The native helpers\<close>

definition models_request :: "string \<Rightarrow> http_request" where
  "models_request apiKey =
     \<lparr>req_url = ''https://openrouter.ai/api/v1/models'', req_method = ''GET'',
      req_headers = [(''Authorization'', ''Bearer '' @ apiKey)], req_body = None\<rparr>"

definition chat_request :: "llm_env \<Rightarrow> string \<Rightarrow> string \<Rightarrow> string \<Rightarrow> http_request" where
  "chat_request env apiKey mdl prompt =
     \<lparr>req_url = ''https://openrouter.ai/api/v1/chat/completions'', req_method = ''POST'',
      req_headers =
        [(''Content-Type'', ''application/json''), (''Authorization'', ''Bearer '' @ apiKey),
         (''HTTP-Referer'', ''https://vencord.dev''), (''X-Title'', ''Vencord Translate Plugin'')],
      req_body = Some (stringify env
        (JObj [(''model'', JStr mdl),
               (''messages'', JArr [JObj [(''role'', JStr ''user''), (''content'', JStr prompt)]]),
               (''max_tokens'', JNum 2048)]))\<rparr>"

definition fetch_result :: "llm_env \<Rightarrow> http_request \<Rightarrow> int \<times> string" where
  "fetch_result env req =
     (case fetch env req of Inl e \<Rightarrow> (- 1, e) | Inr (status, body) \<Rightarrow> (status, body))"

definition fetchOpenRouterModels :: "llm_env \<Rightarrow> string \<Rightarrow> llm_event list \<times> int \<times> string" where
  "fetchOpenRouterModels env apiKey =
     ([Requested (models_request apiKey)], fetch_result env (models_request apiKey))"

definition makeOpenRouterTranslateRequest ::
  "llm_env \<Rightarrow> string \<Rightarrow> string \<Rightarrow> string \<Rightarrow> llm_event list \<times> int \<times> string" where
  "makeOpenRouterTranslateRequest env apiKey mdl prompt =
     ([Requested (chat_request env apiKey mdl prompt)],
      fetch_result env (chat_request env apiKey mdl prompt))"

subsection \<open>Listing the models\<close>

text \<open>
  \<open>Array.prototype.sort\<close> with a comparator: the stable sort, by insertion from the
  right. For a comparator that is a total preorder this is the one result a stable sort
  can give.
\<close>

fun insert_sorted :: "('a \<Rightarrow> 'a \<Rightarrow> int) \<Rightarrow> 'a \<Rightarrow> 'a list \<Rightarrow> 'a list" where
  "insert_sorted cmp x [] = [x]"
| "insert_sorted cmp x (y # ys) =
     (if cmp x y \<le> 0 then x # y # ys else y # insert_sorted cmp x ys)"

definition js_sort :: "('a \<Rightarrow> 'a \<Rightarrow> int) \<Rightarrow> 'a list \<Rightarrow> 'a list" where
  "js_sort cmp xs = foldr (insert_sorted cmp) xs []"

definition by_name :: "llm_env \<Rightarrow> OpenRouterModel \<Rightarrow> OpenRouterModel \<Rightarrow> int" where
  "by_name env a b = localeCompare env (m_name a) (m_name b)"

definition cache_entry :: "OpenRouterModel \<Rightarrow> OpenRouterModel" where
  "cache_entry m = \<lparr>m_id = m_id m, m_name = m_name m, m_pricing = None\<rparr>"

definition fetchModels ::
  "llm_settings \<Rightarrow> llm_env \<Rightarrow> llm_settings \<times> llm_event list \<times> (thrown + OpenRouterModel list)" where
  "fetchModels st env =
     (case openrouterApiKey st of
        None \<Rightarrow> (st, [], Inl (Error ''OpenRouter API key is not set''))
      | Some apiKey \<Rightarrow>
          if apiKey = [] then (st, [], Inl (Error ''OpenRouter API key is not set''))
          else
            let (evs, status, data) = fetchOpenRouterModels env apiKey in
            if status = - 1
            then (st, evs, Inl (Error (''Failed to connect to OpenRouter API: '' @ data)))
            else if status = 401 then (st, evs, Inl (Error ''Invalid OpenRouter API key''))
            else if status \<noteq> 200
            then (st, evs,
                  Inl (Error (''Failed to fetch models: '' @ string_of_int status @ '' '' @ data)))
            else
              case parseModelsResponse env data of
                Inl msg \<Rightarrow> (st, evs, Inl (Error msg))
              | Inr ms \<Rightarrow>
                  let models = js_sort (by_name env) ms
                  in (st\<lparr>openrouterModelsCache := Some (map cache_entry models)\<rparr>, evs,
                      Inr models))"

definition getModels ::
  "llm_settings \<Rightarrow> llm_env \<Rightarrow> llm_settings \<times> llm_event list \<times> (thrown + OpenRouterModel list)" where
  "getModels st env =
     (case openrouterModelsCache st of
        Some cached \<Rightarrow> if length cached > 0 then (st, [], Inr cached) else fetchModels st env
      | None \<Rightarrow> fetchModels st env)"

subsection \<open>Translating a batch\<close>

definition batch_prompt :: "llm_env \<Rightarrow> string list \<Rightarrow> string \<Rightarrow> string" where
  "batch_prompt env texts targetLang =
     ''Translate the following '' @ string_of_nat (length texts) @ '' messages to ''
       @ targetLang @ ''. '' @ [CHR 0x0A]
     @ ''Return ONLY a JSON array of strings, where each element corresponds to the input message. ''
       @ [CHR 0x0A]
     @ ''Preserve formatting, emojis, and markdown inside each string.'' @ [CHR 0x0A]
     @ ''Do not include any commentary.'' @ [CHR 0x0A]
     @ [CHR 0x0A]
     @ ''Input messages:'' @ [CHR 0x0A]
     @ stringifyIndented env (JArr (map JStr texts))"

text \<open>
  \<open>response.choices?.[0]?.message?.content\<close>; reading \<open>choices\<close> of \<open>null\<close> throws.
\<close>

definition chat_content :: "llm_env \<Rightarrow> json \<Rightarrow> thrown + json option" where
  "chat_content env response =
     (if response = JNull then Inl (Error (nullReadMessage env))
      else Inr (opt_chain (opt_chain (opt_chain (get_prop response ''choices'') ''0'')
                  ''message'') ''content''))"

text \<open>
  The \<open>try\<close> block with its \<open>catch\<close>, for a content that is not falsy and \<open>n\<close> texts
  requested. Whatever is thrown inside (no array found, a text that does not parse, a
  content or an element that is not a string and so has no \<open>match\<close> or \<open>trim\<close>) is
  logged and replaced by one error. \<open>JSON.parse\<close> of a text that starts with a bracket
  returns an array or throws; any other value is taken as a throw.
\<close>

definition parse_batch_results ::
  "llm_env \<Rightarrow> nat \<Rightarrow> json \<Rightarrow> llm_event list \<times> (thrown + TranslationValue list)" where
  "parse_batch_results env n content =
     (let failed = Inl (Error ''Failed to parse batch translation results'') in
      case json_string content of
        None \<Rightarrow> ([ErrorLogged], failed)
      | Some s \<Rightarrow>
          (case match_json_array s of
             None \<Rightarrow> ([ErrorLogged], failed)
           | Some js \<Rightarrow>
               (case parseJSON env js of
                  Inr (JArr results) \<Rightarrow>
                    let warn = (if length results \<noteq> n then [Warned n (length results)] else [])
                    in (case those (map json_string results) of
                          Some strings \<Rightarrow>
                            (warn,
                             Inr (map (\<lambda>text. \<lparr>tv_text = js_trim text,
                                                tv_sourceLanguage = ''LLM''\<rparr>) strings))
                        | None \<Rightarrow> (warn @ [ErrorLogged], failed))
                | _ \<Rightarrow> ([ErrorLogged], failed))))"

definition translateBatchWithLLM ::
  "llm_settings \<Rightarrow> llm_env \<Rightarrow> string list \<Rightarrow> string
     \<Rightarrow> llm_event list \<times> (thrown + TranslationValue list)" where
  "translateBatchWithLLM st env texts targetLang =
     (let mdl = normalizeValue (llm_openrouterModel st) ''openai/gpt-4o-mini'' in
      case openrouterApiKey st of
        None \<Rightarrow>
          ([Notified ''OpenRouter API key is not set. Please configure it in settings.'' FAILURE],
           Inl (Error ''OpenRouter API key is not set''))
      | Some apiKey \<Rightarrow>
          if apiKey = []
          then ([Notified ''OpenRouter API key is not set. Please configure it in settings.''
                   FAILURE],
                Inl (Error ''OpenRouter API key is not set''))
          else if length texts = 0 then ([], Inr [])
          else
            let (evs, status, data) =
                  makeOpenRouterTranslateRequest env apiKey mdl (batch_prompt env texts targetLang)
            in
            if status \<noteq> 200
            then (evs, Inl (Error (''OpenRouter Batch API error: '' @ string_of_int status
                                   @ '' '' @ data)))
            else
              case parseJSON env data of
                Inl msg \<Rightarrow> (evs, Inl (Error msg))
              | Inr response \<Rightarrow>
                  (case chat_content env response of
                     Inl err \<Rightarrow> (evs, Inl err)
                   | Inr content \<Rightarrow>
                       (case content of
                          Some c \<Rightarrow>
                            if js_falsy (Some c)
                            then (evs, Inl (Error ''No translation returned from OpenRouter''))
                            else
                              let (evs2, res) = parse_batch_results env (length texts) c
                              in (evs @ evs2, res)
                        | None \<Rightarrow>
                            (evs, Inl (Error ''No translation returned from OpenRouter'')))))"

text \<open>
  A platform for examples: every request is answered with status 200 and one chat
  completion whose content is an array of two strings; the model list answer holds two
  models. \<open>JSON.parse\<close> is given on the texts that occur, and strings are compared
  character by character.
\<close>

fun compare_codes :: "nat list \<Rightarrow> nat list \<Rightarrow> int" where
  "compare_codes [] [] = 0"
| "compare_codes [] (y # ys) = - 1"
| "compare_codes (x # xs) [] = 1"
| "compare_codes (x # xs) (y # ys) =
     (if x < y then - 1 else if y < x then 1 else compare_codes xs ys)"

definition code_unit_compare :: "string \<Rightarrow> string \<Rightarrow> int" where
  "code_unit_compare a b = compare_codes (map of_char a) (map of_char b)"

definition demo_content :: string where
  \<open>demo_content = ''Here: ["uno ", "dos"]''\<close>

definition demo_array_text :: string where
  \<open>demo_array_text = ''["uno ", "dos"]''\<close>

definition demo_reply :: string where
  \<open>demo_reply =
     ''{"choices":[{"message":{"content":"Here: ['' @ [CHR 0x5C, CHR 0x22] @ ''uno ''
     @ [CHR 0x5C, CHR 0x22] @ '', '' @ [CHR 0x5C, CHR 0x22] @ ''dos'' @ [CHR 0x5C, CHR 0x22]
     @ '']"}}]}''\<close>

definition demo_models_reply :: string where
  \<open>demo_models_reply = ''{"data":[{"id":"b/x","name":"Beta"},{"id":"a/y","name":"Alpha"}]}''\<close>

definition demo_llm_env :: llm_env where
  \<open>demo_llm_env =
     \<lparr>fetch = (\<lambda>req. if req_method req = ''GET'' then Inr (200, demo_models_reply)
                       else Inr (200, demo_reply)),
      parseJSON = (\<lambda>s.
         if s = demo_reply
         then Inr (JObj [(''choices'',
                 JArr [JObj [(''message'',
                   JObj [(''content'', JStr demo_content)])]])])
         else if s = demo_array_text then Inr (JArr [JStr ''uno '', JStr ''dos''])
         else Inl ''Unexpected token''),
      parseModelsResponse = (\<lambda>s.
         if s = demo_models_reply
         then Inr [\<lparr>m_id = ''b/x'', m_name = ''Beta'', m_pricing = None\<rparr>,
                   \<lparr>m_id = ''a/y'', m_name = ''Alpha'', m_pricing = None\<rparr>]
         else Inl ''Unexpected token''),
      stringify = (\<lambda>v. ''{}''),
      stringifyIndented = (\<lambda>v. ''[]''),
      localeCompare = code_unit_compare,
      nullReadMessage = ''Cannot read properties of null''\<rparr>\<close>

definition demo_settings :: llm_settings where
  "demo_settings =
     \<lparr>openrouterApiKey = Some ''sk-1'', llm_openrouterModel = OtherValue,
      openrouterModelsCache = None\<rparr>"

section \<open>Properties of the progress tracker\<close>

lemma percent_no_total: "t \<le> 0 \<Longrightarrow> percent c t = 0"
  by (simp add: percent_def)

text \<open>
  The percentage is that of the doubles, not of the exact quotient: \<open>23 / 40\<close> is the
  double just below \<open>0.575\<close> and its product with 100 rounds to a double below \<open>57.5\<close>;
  a half is rounded towards plus infinity.
\<close>

lemma percent_rounds_doubles:
  "percent 23 40 = 57 \<and> percent 1 3 = 33 \<and> percent 2 3 = 67 \<and> percent 1 8 = 13
   \<and> percent (- 1) 8 = - 12 \<and> percent 5 2 = 250 \<and> percent 7 7 = 100 \<and> percent 3 0 = 0"
  by code_simp

lemma progress_step_inv:
  assumes "progress_inv s" and "op_in_bounds x s"
  shows "progress_inv (progress_step x s)"
proof (cases x)
  case (Update cur)
  with assms show ?thesis
    by (cases cur) (auto simp: progress_inv_def updateProgress_def Let_def)
qed (use assms in \<open>auto simp: progress_inv_def startProgress_def endProgress_def resetTimer_def\<close>)

lemma progress_run_inv:
  "progress_inv s \<Longrightarrow> ops_in_bounds xs s \<Longrightarrow> progress_inv (progress_run xs s)"
  by (induction xs arbitrary: s) (auto simp: progress_step_inv)

text \<open>
  Claim C6, as stated, fails: the tracker does not clamp, so two increments after
  \<open>start(1)\<close> leave \<open>current = 2 > total = 1\<close>.
\<close>

theorem progress_inv_counterexample:
  "\<not> progress_inv (progress_run [Start 1, Update None, Update None] progress_init)"
  by (simp add: progress_inv_def progress_init_def startProgress_def updateProgress_def Let_def)

text \<open>
  Claim C6, amended: \<open>0 \<le> current \<le> total\<close> (when \<open>total > 0\<close>) is preserved by every
  sequence of start, update, end and deferred reset whose updates stay within the bounds
  of the batch; an update without argument adds one to \<open>current\<close>, an update with an
  argument sets \<open>current\<close> to it, and with \<open>total = 0\<close> the bar is indeterminate and the
  percentage is 0.
\<close>

theorem progress_inv_preserved:
  "(progress_inv s \<and> ops_in_bounds xs s \<longrightarrow> progress_inv (progress_run xs s))
   \<and> prog_current (updateProgress None s) = prog_current s + 1
   \<and> prog_current (updateProgress (Some c) s) = c
   \<and> (prog_total s = 0 \<longrightarrow>
        \<not> showDeterminate s \<and> prog_progress (updateProgress cur s) = 0)"
  by (simp add: progress_run_inv updateProgress_def showDeterminate_def percent_no_total Let_def)

theorem progress_inv_preserved_witness:
  "progress_inv progress_init
   \<and> ops_in_bounds [Start 2, Update None, Update (Some 2), End, TimerFired] progress_init
   \<and> progress_inv
       (progress_run [Start 2, Update None, Update (Some 2), End, TimerFired] progress_init)
   \<and> prog_total progress_init = 0 \<and> \<not> showDeterminate progress_init"
  using progress_inv_preserved
    [of progress_init "[Start 2, Update None, Update (Some 2), End, TimerFired]" 0 None]
  by (simp add: progress_inv_def progress_init_def startProgress_def updateProgress_def
      endProgress_def resetTimer_def Let_def)

section \<open>Properties of selection mode\<close>

lemma selection_inv_init: "selection_inv selection_init []"
  by (simp add: selection_inv_def selection_init_def)

lemma selection_inv_empty:
  assumes "selection_inv s []"
  shows "selectedIds s = []" and "currentChannelId s = None"
  using assms by (auto simp: selection_inv_def)

lemma selection_inv_toggle:
  assumes "selection_inv s tr"
  shows "selection_inv (toggleSelectionMode s) []"
proof (cases "isSelectionMode s")
  case True
  then show ?thesis
    by (simp add: selection_inv_def toggleSelectionMode_def Let_def)
next
  case False
  with assms have "tr = []" by (simp add: selection_inv_def)
  with assms have "selectedIds s = []" and "currentChannelId s = None"
    by (simp_all add: selection_inv_empty)
  with False show ?thesis
    by (simp add: selection_inv_def toggleSelectionMode_def Let_def)
qed

lemma selection_inv_exit: "selection_inv (exitSelectionMode s) []"
  by (simp add: selection_inv_def exitSelectionMode_def)

lemma selection_inv_select_off:
  assumes "\<not> isSelectionMode s"
  shows "toggleMessageSelection m c s = s"
  using assms by (simp add: toggleMessageSelection_def)

lemma selection_inv_select_on:
  assumes inv: "selection_inv s tr" and on: "isSelectionMode s" and c: "c \<noteq> []"
  shows "selection_inv (toggleMessageSelection m c s) (tr @ [(m, c)])"
proof (cases "tr = []")
  case True
  with inv have "selectedIds s = []" and "currentChannelId s = None"
    by (simp_all add: selection_inv_empty)
  with True on c show ?thesis
    by (simp add: selection_inv_def toggleMessageSelection_def falsy_def set_has_def
        set_add_def Let_def)
next
  case False
  with inv have ch: "currentChannelId s = Some (snd (last tr))"
    and ne: "snd (last tr) \<noteq> []"
    and mem: "\<forall>x \<in> set (selectedIds s). map_of (rev tr) x = Some (snd (last tr))"
    and chans: "\<forall>p \<in> set tr. snd p \<noteq> []"
    by (auto simp: selection_inv_def)
  show ?thesis
  proof (cases "snd (last tr) = c")
    case True
    with ch ne mem chans on c False show ?thesis
      by (auto simp: selection_inv_def toggleMessageSelection_def falsy_def set_has_def
          set_add_def set_delete_def Let_def)
  next
    case False
    with ch ne chans on c show ?thesis
      by (auto simp: selection_inv_def toggleMessageSelection_def falsy_def set_has_def
          set_add_def set_delete_def Let_def)
  qed
qed

lemma selection_inv_run:
  assumes "selection_inv s tr" and "channels_nonempty xs"
  shows "selection_inv (selection_run xs s) (effective_selects xs s tr)"
  using assms
proof (induction xs arbitrary: s tr)
  case Nil
  then show ?case by simp
next
  case (Cons x xs)
  show ?case
  proof (cases x)
    case Toggle
    with Cons show ?thesis by (simp add: selection_inv_toggle)
  next
    case Exit
    with Cons show ?thesis by (simp add: selection_inv_exit)
  next
    case (Select m c)
    show ?thesis
    proof (cases "isSelectionMode s")
      case True
      with Cons Select show ?thesis by (simp add: selection_inv_select_on)
    next
      case False
      with Cons Select show ?thesis by (simp add: selection_inv_select_off)
    qed
  qed
qed

lemma rebinding_selects_last:
  "(case rebinding_selects prev tr of [] \<Rightarrow> prev | r # rs \<Rightarrow> Some (snd (last (r # rs))))
   = (if tr = [] then prev else Some (snd (last tr)))"
proof (induction tr arbitrary: prev)
  case Nil
  then show ?case by simp
next
  case (Cons p tr)
  obtain m c where p: "p = (m, c)" by (cases p)
  from Cons [of "Some c"] p show ?case
    by (cases "rebinding_selects (Some c) tr") (auto split: if_splits)
qed

lemma bound_channel_spec_last:
  "bound_channel_spec tr = (if tr = [] then None else Some (snd (last tr)))"
  unfolding bound_channel_spec_def by (rule rebinding_selects_last)

lemma bound_channel_run:
  assumes "\<not> isSelectionMode s \<longrightarrow> tr = []"
    and "currentChannelId s = (if tr = [] then None else Some (snd (last tr)))"
  shows "currentChannelId (selection_run xs s)
           = (if effective_selects xs s tr = [] then None
              else Some (snd (last (effective_selects xs s tr))))"
  using assms
proof (induction xs arbitrary: s tr)
  case Nil
  then show ?case by simp
next
  case (Cons x xs)
  show ?case
  proof (cases x)
    case Toggle
    have "currentChannelId (toggleSelectionMode s) = None"
      using Cons.prems by (simp add: toggleSelectionMode_def Let_def)
    then show ?thesis using Toggle Cons.IH [of "toggleSelectionMode s" "[]"] by simp
  next
    case Exit
    have "currentChannelId (exitSelectionMode s) = None"
      by (simp add: exitSelectionMode_def)
    then show ?thesis using Exit Cons.IH [of "exitSelectionMode s" "[]"] by simp
  next
    case (Select m c)
    show ?thesis
    proof (cases "isSelectionMode s")
      case True
      then have "isSelectionMode (toggleMessageSelection m c s)"
        and "currentChannelId (toggleMessageSelection m c s) = Some c"
        by (simp_all add: toggleMessageSelection_def Let_def)
      then show ?thesis
        using Select True Cons.IH [of "toggleMessageSelection m c s" "tr @ [(m, c)]"] by simp
    next
      case False
      then show ?thesis
        using Select Cons.prems Cons.IH [of s tr] by (simp add: selection_inv_select_off)
    qed
  qed
qed

text \<open>
  Channel identifiers are Discord snowflakes, strings of digits that are never empty:
  the one caller of \<open>toggleMessageSelection\<close> (index.tsx) passes \<open>message.channel_id\<close>.
  The test \<open>!_currentChannelId\<close> of \<open>toggleMessageSelection\<close> cannot tell the empty
  string from \<open>null\<close>, so the two properties of claim C2 that rest on that test are
  stated for such identifiers; for the empty string the set is not cleared:
\<close>

lemma select_after_empty_channel:
  "selectedIds (selection_run [Toggle, Select ''m1'' '''', Select ''m2'' ''c2''] selection_init)
     = [''m1'', ''m2'']"
  by (simp add: selection_init_def toggleSelectionMode_def toggleMessageSelection_def
      falsy_def set_has_def set_add_def set_delete_def Let_def)

text \<open>
  Claim C2: after every sequence of toggle, select and exit calls, the bound channel
  equals the channel argument of the most recent select call that followed a mode reset
  or a channel switch (and is null when there is none), and a select while the mode is
  off changes nothing. When the channel identifiers of the select calls are not empty,
  every member of the selection set was put there by a select call in the bound channel,
  and a select whose channel differs from the bound channel leaves the set holding that
  one message and rebinds to the new channel.
\<close>

theorem selection_single_channel:
  "currentChannelId (selection_run ops selection_init)
     = bound_channel_spec (effective_selects ops selection_init [])
   \<and> (\<not> isSelectionMode (selection_run ops selection_init) \<longrightarrow>
        toggleMessageSelection m c (selection_run ops selection_init)
          = selection_run ops selection_init)
   \<and> (channels_nonempty ops \<longrightarrow>
        (\<forall>m \<in> set (selectedIds (selection_run ops selection_init)).
           currentChannelId (selection_run ops selection_init) \<noteq> None
           \<and> channel_of_member (effective_selects ops selection_init []) m
               = currentChannelId (selection_run ops selection_init))
        \<and> (isSelectionMode (selection_run ops selection_init)
             \<and> currentChannelId (selection_run ops selection_init) = Some c'
             \<and> c' \<noteq> c \<longrightarrow>
             selectedIds (toggleMessageSelection m c (selection_run ops selection_init)) = [m]
             \<and> currentChannelId (toggleMessageSelection m c (selection_run ops selection_init))
                 = Some c))"
proof -
  let ?s = "selection_run ops selection_init"
  let ?tr = "effective_selects ops selection_init []"
  have "currentChannelId ?s = (if ?tr = [] then None else Some (snd (last ?tr)))"
    by (rule bound_channel_run) (simp_all add: selection_init_def)
  then have bound: "currentChannelId ?s = bound_channel_spec ?tr"
    by (simp add: bound_channel_spec_last)
  have off: "\<not> isSelectionMode ?s \<longrightarrow> toggleMessageSelection m c ?s = ?s"
    by (simp add: selection_inv_select_off)
  have rest: "(\<forall>m \<in> set (selectedIds ?s).
        currentChannelId ?s \<noteq> None \<and> channel_of_member ?tr m = currentChannelId ?s)
      \<and> (isSelectionMode ?s \<and> currentChannelId ?s = Some c' \<and> c' \<noteq> c \<longrightarrow>
           selectedIds (toggleMessageSelection m c ?s) = [m]
           \<and> currentChannelId (toggleMessageSelection m c ?s) = Some c)"
    if ids: "channels_nonempty ops"
  proof -
    have inv: "selection_inv ?s ?tr"
      using selection_inv_init ids by (rule selection_inv_run)
    have members: "\<forall>m \<in> set (selectedIds ?s).
        currentChannelId ?s \<noteq> None \<and> channel_of_member ?tr m = currentChannelId ?s"
      using inv by (auto simp: selection_inv_def channel_of_member_def)
    have switch: "isSelectionMode ?s \<and> currentChannelId ?s = Some c' \<and> c' \<noteq> c \<longrightarrow>
        selectedIds (toggleMessageSelection m c ?s) = [m]
        \<and> currentChannelId (toggleMessageSelection m c ?s) = Some c"
    proof (intro impI, elim conjE)
      assume on: "isSelectionMode ?s" and ch: "currentChannelId ?s = Some c'" and ne: "c' \<noteq> c"
      from inv ch have "c' \<noteq> []"
        by (auto simp: selection_inv_def split: if_splits)
      with on ch ne show "selectedIds (toggleMessageSelection m c ?s) = [m]
        \<and> currentChannelId (toggleMessageSelection m c ?s) = Some c"
        by (simp add: toggleMessageSelection_def falsy_def set_has_def set_add_def Let_def)
    qed
    from members switch show ?thesis by blast
  qed
  from bound off rest show ?thesis by blast
qed

theorem selection_single_channel_witness:
  "channels_nonempty [Toggle, Select ''m1'' ''c1'', Select ''m2'' ''c1'', Select ''m3'' ''c2'']
   \<and> currentChannelId
       (selection_run [Toggle, Select ''m1'' ''c1'', Select ''m2'' ''c1'', Select ''m3'' ''c2'']
          selection_init) = Some ''c2''
   \<and> selectedIds
       (selection_run [Toggle, Select ''m1'' ''c1'', Select ''m2'' ''c1'', Select ''m3'' ''c2'']
          selection_init) = [''m3'']
   \<and> bound_channel_spec
       (effective_selects
          [Toggle, Select ''m1'' ''c1'', Select ''m2'' ''c1'', Select ''m3'' ''c2'']
          selection_init []) = Some ''c2''
   \<and> channel_of_member
       (effective_selects
          [Toggle, Select ''m1'' ''c1'', Select ''m2'' ''c1'', Select ''m3'' ''c2'']
          selection_init []) ''m3'' = Some ''c2''
   \<and> selectedIds
       (toggleMessageSelection ''m4'' ''c3''
         (selection_run [Toggle, Select ''m1'' ''c1'', Select ''m2'' ''c1'', Select ''m3'' ''c2'']
            selection_init)) = [''m4'']
   \<and> \<not> isSelectionMode (selection_run [Toggle, Select ''m1'' ''c1'', Exit] selection_init)
   \<and> toggleMessageSelection ''m4'' ''c3''
       (selection_run [Toggle, Select ''m1'' ''c1'', Exit] selection_init)
       = selection_run [Toggle, Select ''m1'' ''c1'', Exit] selection_init"
  using selection_single_channel
    [of "[Toggle, Select ''m1'' ''c1'', Select ''m2'' ''c1'', Select ''m3'' ''c2'']"
        "''m4''" "''c3''" "''c2''"]
    selection_single_channel [of "[Toggle, Select ''m1'' ''c1'', Exit]" "''m4''" "''c3''" "''c2''"]
  by (simp add: selection_init_def toggleSelectionMode_def toggleMessageSelection_def
      exitSelectionMode_def falsy_def set_has_def set_add_def set_delete_def
      bound_channel_spec_def channel_of_member_def Let_def)

section \<open>Properties of the result cache\<close>

lemma ensureLoaded_entries:
  "store_ok s \<Longrightarrow> cache (ensureLoaded s) = store_entries s \<and> loaded (ensureLoaded s)"
  by (simp add: ensureLoaded_def DataStore_get_def ensureLoaded_resume_def store_entries_def)

lemma store_step_entries:
  assumes "store_ok s"
  shows "map_of (store_entries (store_step x s)) = net_effect [x] (map_of (store_entries s))"
    and "store_ok (store_step x s)"
proof -
  note el = ensureLoaded_entries [OF assms]
  from assms have d: "distinct (map fst (store_entries s))"
    by (simp add: store_ok_def)
  show "map_of (store_entries (store_step x s)) = net_effect [x] (map_of (store_entries s))"
    using el
    by (cases x)
       (simp_all add: TranslationStore_save_def TranslationStore_delete_def
          TranslationStore_clearAll_def save_body_def delete_body_def DataStore_set_def
          DataStore_del_def store_entries_def [of "_\<lparr>persisted := _\<rparr>"] Let_def
          update_conv' delete_conv')
  show "store_ok (store_step x s)"
    using el d
    by (cases x)
       (simp_all add: TranslationStore_save_def TranslationStore_delete_def
          TranslationStore_clearAll_def save_body_def delete_body_def DataStore_set_def
          DataStore_del_def store_ok_def store_entries_def [of "_\<lparr>persisted := _\<rparr>"] Let_def
          distinct_update distinct_delete)
qed

lemma net_effect_Cons: "net_effect (x # xs) m = net_effect xs (net_effect [x] m)"
  by (cases x) simp_all

lemma store_run_entries:
  assumes "store_ok s"
  shows "map_of (store_entries (store_run xs s)) = net_effect xs (map_of (store_entries s))
         \<and> store_ok (store_run xs s)"
  using assms
proof (induction xs arbitrary: s)
  case Nil
  then show ?case by simp
next
  case (Cons x xs)
  from store_step_entries [OF Cons.prems, of x]
  have 1: "map_of (store_entries (store_step x s)) = net_effect [x] (map_of (store_entries s))"
    and 2: "store_ok (store_step x s)" by simp_all
  from Cons.IH [OF 2] 1 show ?case
    using net_effect_Cons [of x xs "map_of (store_entries s)"] by simp
qed

lemma getAll_entries:
  assumes "store_ok s"
  shows "map_of (snd (TranslationStore_getAll s)) = map_of (store_entries s)"
    and "distinct (map fst (snd (TranslationStore_getAll s)))"
    and "sorted_wrt (\<lambda>a b. sv_timestamp (snd b) \<le> sv_timestamp (snd a))
           (snd (TranslationStore_getAll s))"
proof -
  let ?k = "\<lambda>e :: string \<times> SavedTranslation. - sv_timestamp (snd e)"
  let ?es = "store_entries s"
  have res: "snd (TranslationStore_getAll s) = sort_key ?k ?es"
    using ensureLoaded_entries [OF assms] by (simp add: TranslationStore_getAll_def Let_def)
  from assms have d: "distinct (map fst ?es)" by (simp add: store_ok_def)
  then have d': "distinct (map fst (sort_key ?k ?es))"
    by (simp add: distinct_map)
  from d d' have "map_of (sort_key ?k ?es) = map_of ?es"
    by (simp add: map_of_inject_set)
  with res show "map_of (snd (TranslationStore_getAll s)) = map_of (store_entries s)"
    by simp
  from res d' show "distinct (map fst (snd (TranslationStore_getAll s)))" by simp
  have "sorted (map ?k (sort_key ?k ?es))" by (rule sorted_sort_key)
  then have "sorted_wrt (\<lambda>a b. ?k a \<le> ?k b) (sort_key ?k ?es)"
    by (simp add: sorted_map)
  with res show "sorted_wrt (\<lambda>a b. sv_timestamp (snd b) \<le> sv_timestamp (snd a))
           (snd (TranslationStore_getAll s))" by simp
qed

lemma fresh_store_ok:
  "distinct (map fst (case p of None \<Rightarrow> [] | Some m \<Rightarrow> m)) \<Longrightarrow> store_ok (fresh_store p)"
  by (simp add: store_ok_def fresh_store_def store_entries_def)

text \<open>
  Claim C4: \<open>save\<close> followed by \<open>get\<close> returns the text and the source language saved,
  with the timestamp that \<open>Date.now()\<close> gave inside \<open>save\<close>; with a clock \<open>clk\<close> that
  does not run backwards, read at the instant \<open>t0\<close> of the call of \<open>save\<close>, at the
  instant \<open>t1\<close> where \<open>save\<close> reads it and at the instant \<open>t2\<close> of the call of \<open>get\<close>,
  that timestamp lies between the two calls. A \<open>delete\<close> afterwards makes \<open>get\<close> return
  nothing.
\<close>

theorem store_round_trip:
  assumes "mono clk" and "t0 \<le> t1" and "t1 \<le> t2"
  shows "TranslationStore_get (TranslationStore_save messageId result mdl (clk t1) s) messageId
           = Some \<lparr>sv_text = tv_text result, sv_sourceLanguage = tv_sourceLanguage result,
                   sv_model = mdl, sv_timestamp = clk t1\<rparr>
         \<and> clk t0 \<le> clk t1 \<and> clk t1 \<le> clk t2
         \<and> TranslationStore_get
             (TranslationStore_delete messageId
                (TranslationStore_save messageId result mdl (clk t1) s)) messageId = None"
proof -
  have "clk t0 \<le> clk t1" and "clk t1 \<le> clk t2"
    using assms by (auto dest: monoD)
  then show ?thesis
    by (simp add: TranslationStore_get_def TranslationStore_save_def TranslationStore_delete_def
        save_body_def delete_body_def DataStore_set_def ensureLoaded_def Let_def
        update_conv' delete_conv')
qed

theorem store_round_trip_witness:
  "mono (\<lambda>t :: nat. 1000 + int t) \<and> (3 :: nat) \<le> 4 \<and> (4 :: nat) \<le> 7
   \<and> TranslationStore_get
       (TranslationStore_save ''42'' \<lparr>tv_text = ''bonjour'', tv_sourceLanguage = ''fr''\<rparr> None
          1004 (fresh_store None)) ''42''
       = Some \<lparr>sv_text = ''bonjour'', sv_sourceLanguage = ''fr'', sv_model = None,
               sv_timestamp = 1004\<rparr>
   \<and> TranslationStore_get
       (TranslationStore_delete ''42''
         (TranslationStore_save ''42'' \<lparr>tv_text = ''bonjour'', tv_sourceLanguage = ''fr''\<rparr> None
            1004 (fresh_store None))) ''42'' = None"
proof -
  have m: "mono (\<lambda>t :: nat. 1000 + int t)" by (simp add: mono_def)
  have a: "(3 :: nat) \<le> 4" and b: "(4 :: nat) \<le> 7" by simp_all
  from store_round_trip [OF m a b, of "''42''"
      "\<lparr>tv_text = ''bonjour'', tv_sourceLanguage = ''fr''\<rparr>" None "fresh_store None"]
  show ?thesis using m by simp
qed

text \<open>
  Claim C5: after every sequence of \<open>save\<close>, \<open>delete\<close> and \<open>clearAll\<close>, each run to
  completion, on a store started over any persisted mapping, \<open>getAll\<close> returns exactly
  the entries of the net effect of the sequence on that mapping, newest first.
\<close>

theorem getAll_net_effect:
  assumes "distinct (map fst (case p of None \<Rightarrow> [] | Some m \<Rightarrow> m))"
  shows "map_of (snd (TranslationStore_getAll (store_run ops (fresh_store p))))
           = net_effect ops (map_of (case p of None \<Rightarrow> [] | Some m \<Rightarrow> m))
         \<and> distinct (map fst (snd (TranslationStore_getAll (store_run ops (fresh_store p)))))
         \<and> sorted_wrt (\<lambda>a b. sv_timestamp (snd b) \<le> sv_timestamp (snd a))
             (snd (TranslationStore_getAll (store_run ops (fresh_store p))))"
proof -
  have ok: "store_ok (fresh_store p)" using assms by (rule fresh_store_ok)
  have e: "store_entries (fresh_store p) = (case p of None \<Rightarrow> [] | Some m \<Rightarrow> m)"
    by (simp add: store_entries_def fresh_store_def)
  from store_run_entries [OF ok, of ops] e
  have run: "map_of (store_entries (store_run ops (fresh_store p)))
               = net_effect ops (map_of (case p of None \<Rightarrow> [] | Some m \<Rightarrow> m))"
    and ok': "store_ok (store_run ops (fresh_store p))" by simp_all
  from getAll_entries [OF ok'] run show ?thesis by simp
qed

theorem getAll_net_effect_witness:
  "distinct (map fst (case Some [(''m0'', \<lparr>sv_text = ''hola'', sv_sourceLanguage = ''es'',
       sv_model = None, sv_timestamp = 5\<rparr>)] of None \<Rightarrow> [] | Some m \<Rightarrow> m))
   \<and> snd (TranslationStore_getAll
        (store_run
           [Save ''m1'' \<lparr>tv_text = ''one'', tv_sourceLanguage = ''fr''\<rparr> None 10,
            Save ''m2'' \<lparr>tv_text = ''two'', tv_sourceLanguage = ''de''\<rparr> (Some ''gpt'') 20,
            Delete ''m0'']
           (fresh_store (Some [(''m0'', \<lparr>sv_text = ''hola'', sv_sourceLanguage = ''es'',
              sv_model = None, sv_timestamp = 5\<rparr>)]))))
     = [(''m2'', \<lparr>sv_text = ''two'', sv_sourceLanguage = ''de'', sv_model = Some ''gpt'',
                  sv_timestamp = 20\<rparr>),
        (''m1'', \<lparr>sv_text = ''one'', sv_sourceLanguage = ''fr'', sv_model = None,
                  sv_timestamp = 10\<rparr>)]"
  using getAll_net_effect
    [of "Some [(''m0'', \<lparr>sv_text = ''hola'', sv_sourceLanguage = ''es'',
           sv_model = None, sv_timestamp = 5\<rparr>)]"
        "[Save ''m1'' \<lparr>tv_text = ''one'', tv_sourceLanguage = ''fr''\<rparr> None 10,
          Save ''m2'' \<lparr>tv_text = ''two'', tv_sourceLanguage = ''de''\<rparr> (Some ''gpt'') 20,
          Delete ''m0'']"]
  by (simp add: TranslationStore_getAll_def TranslationStore_save_def
      TranslationStore_delete_def save_body_def delete_body_def DataStore_set_def
      DataStore_get_def ensureLoaded_def ensureLoaded_resume_def fresh_store_def Let_def)

lemma task_save_alone:
  "sched_run [0, 0, 0] ([(CallSave messageId result mdl now, NotStarted)], s)
   = ([(CallSave messageId result mdl now, Finished)],
      TranslationStore_save messageId result mdl now s)"
  by (cases "loaded s")
     (simp_all add: TranslationStore_save_def ensureLoaded_def DataStore_get_def Let_def)

text \<open>
  Claim C3 against the code: two \<open>save\<close> calls issued before the first hydration has
  completed, over a persisted mapping that holds \<open>m0\<close>. Both find \<open>_loaded\<close> false and
  issue their own \<open>DataStore.get\<close>; the first call hydrates, writes \<open>m1\<close> and persists;
  then the second call's \<open>get\<close> delivers the mapping as it was before that write, and
  \<open>ensureLoaded\<close> puts it in place of the cache. Two loads have occurred, and \<open>m1\<close> is
  gone from the cache and from the persisted mapping.
\<close>

theorem hydration_race:
  "map snd (fst (sched_run [0, 1, 0, 0, 1, 1]
      ([(CallSave ''m1'' \<lparr>tv_text = ''one'', tv_sourceLanguage = ''fr''\<rparr> None 10, NotStarted),
        (CallSave ''m2'' \<lparr>tv_text = ''two'', tv_sourceLanguage = ''de''\<rparr> None 11, NotStarted)],
       fresh_store (Some [(''m0'', \<lparr>sv_text = ''hola'', sv_sourceLanguage = ''es'',
          sv_model = None, sv_timestamp = 5\<rparr>)])))) = [Finished, Finished]
   \<and> gets (snd (sched_run [0, 1, 0, 0, 1, 1]
      ([(CallSave ''m1'' \<lparr>tv_text = ''one'', tv_sourceLanguage = ''fr''\<rparr> None 10, NotStarted),
        (CallSave ''m2'' \<lparr>tv_text = ''two'', tv_sourceLanguage = ''de''\<rparr> None 11, NotStarted)],
       fresh_store (Some [(''m0'', \<lparr>sv_text = ''hola'', sv_sourceLanguage = ''es'',
          sv_model = None, sv_timestamp = 5\<rparr>)])))) = 2
   \<and> TranslationStore_get (snd (sched_run [0, 1, 0, 0, 1, 1]
      ([(CallSave ''m1'' \<lparr>tv_text = ''one'', tv_sourceLanguage = ''fr''\<rparr> None 10, NotStarted),
        (CallSave ''m2'' \<lparr>tv_text = ''two'', tv_sourceLanguage = ''de''\<rparr> None 11, NotStarted)],
       fresh_store (Some [(''m0'', \<lparr>sv_text = ''hola'', sv_sourceLanguage = ''es'',
          sv_model = None, sv_timestamp = 5\<rparr>)])))) ''m1'' = None
   \<and> map_option (map fst) (persisted (snd (sched_run [0, 1, 0, 0, 1, 1]
      ([(CallSave ''m1'' \<lparr>tv_text = ''one'', tv_sourceLanguage = ''fr''\<rparr> None 10, NotStarted),
        (CallSave ''m2'' \<lparr>tv_text = ''two'', tv_sourceLanguage = ''de''\<rparr> None 11, NotStarted)],
       fresh_store (Some [(''m0'', \<lparr>sv_text = ''hola'', sv_sourceLanguage = ''es'',
          sv_model = None, sv_timestamp = 5\<rparr>)]))))) = Some [''m0'', ''m2'']"
  by (simp add: fresh_store_def DataStore_get_def DataStore_set_def ensureLoaded_resume_def
      save_body_def TranslationStore_get_def Let_def)

section \<open>Properties of the batch translation\<close>

lemma count_items_trace:
  "count_saved (items_trace e r i msgs) = length msgs"
  "count_translate (items_trace e r i msgs) = length msgs"
  "count_ended (items_trace e r i msgs) = 0"
  by (induction msgs arbitrary: i) (simp_all add: count_saved_def count_translate_def count_ended_def)

lemma count_append:
  "count_saved (xs @ ys) = count_saved xs + count_saved ys"
  "count_translate (xs @ ys) = count_translate xs + count_translate ys"
  "count_ended (xs @ ys) = count_ended xs + count_ended ys"
  by (simp_all add: count_saved_def count_translate_def count_ended_def)

lemma length_saved_entries: "length (saved_entries e r i msgs) = length msgs"
  by (induction msgs arbitrary: i) simp_all

subsection \<open>What a suspension leaves alone\<close>

lemma drain_fields:
  "w_trace (drain w) = w_trace w"
  "w_progress (drain w) = w_progress w"
  by (simp_all add: drain_def split: prod.split)

lemma start_call_fields:
  "w_trace (start_call call w) = w_trace w"
  "w_progress (start_call call w) = w_progress w"
  by (simp_all add: start_call_def split: prod.split)

lemma apply_event_trace: "w_trace (apply_event ev w) = w_trace w"
  by (induction ev w rule: apply_event.induct)
     (simp_all add: start_call_fields split: task_pc.split prod.split)

lemma foldl_events_trace:
  "w_trace (foldl (\<lambda>w' ev. drain (apply_event ev w')) w evs) = w_trace w"
  by (induction evs arbitrary: w) (simp_all add: drain_fields apply_event_trace)

lemma suspended_trace: "w_trace (suspended evs w) = w_trace w"
  by (simp add: suspended_def foldl_events_trace drain_fields)

lemma apply_event_progress:
  "\<not> other_progress ev \<Longrightarrow> prog_pendingResets (w_progress w) = 0
   \<Longrightarrow> w_progress (apply_event ev w) = w_progress w"
  by (induction ev w rule: apply_event.induct)
     (simp_all add: other_progress_def fire_timer_def start_call_fields
        split: task_pc.split prod.split)

lemma foldl_events_progress:
  "list_all (\<lambda>ev. \<not> other_progress ev) evs \<Longrightarrow> prog_pendingResets (w_progress w) = 0
   \<Longrightarrow> w_progress (foldl (\<lambda>w' ev. drain (apply_event ev w')) w evs) = w_progress w"
  by (induction evs arbitrary: w) (simp_all add: drain_fields apply_event_progress)

lemma suspended_progress:
  "list_all (\<lambda>ev. \<not> other_progress ev) evs \<Longrightarrow> prog_pendingResets (w_progress w) = 0
   \<Longrightarrow> w_progress (suspended evs w) = w_progress w"
  by (simp add: suspended_def foldl_events_progress drain_fields)

subsection \<open>Saves in flight on a hydrated store\<close>

lemma task_step_ready:
  "fst (task_step call AfterEnsureLoaded s) = Finished"
  "loaded (snd (task_step call AfterEnsureLoaded s)) = loaded s"
  by (cases call; simp add: save_body_def delete_body_def DataStore_set_def Let_def)+

lemma run_ready_calm:
  assumes "loaded s"
    and "list_all (\<lambda>t. snd t = Finished \<or> snd t = AfterEnsureLoaded) tasks"
  shows "loaded (snd (run_ready tasks s))
    \<and> list_all (\<lambda>t. snd t = Finished) (fst (run_ready tasks s))"
  using assms
proof (induction tasks arbitrary: s)
  case Nil
  then show ?case by simp
next
  case (Cons t tasks)
  obtain call pc where t: "t = (call, pc)" by (cases t)
  show ?case
  proof (cases "pc = AfterEnsureLoaded")
    case True
    have l: "loaded (snd (task_step call AfterEnsureLoaded s))"
      using Cons.prems(1) by (simp add: task_step_ready)
    from Cons.IH [OF l] Cons.prems(2) t True show ?thesis
      using task_step_ready(1) [of call s]
      by (simp split: prod.split) (metis fst_conv snd_conv)
  next
    case False
    from Cons.IH [OF Cons.prems(1)] Cons.prems(2) t False show ?thesis
      by (simp split: prod.split) (metis fst_conv snd_conv)
  qed
qed

lemma run_ready_finished:
  "list_all (\<lambda>t. snd t = Finished) tasks \<Longrightarrow> run_ready tasks s = (tasks, s)"
  by (induction tasks arbitrary: s) auto

lemma run_ready_append:
  "run_ready (ts @ us) s =
     (fst (run_ready ts s) @ fst (run_ready us (snd (run_ready ts s))),
      snd (run_ready us (snd (run_ready ts s))))"
  by (induction ts arbitrary: s) (auto split: prod.split)

lemma calm_fields:
  "calm (w\<lparr>w_trace := t\<rparr>) = calm w"
  "calm (w\<lparr>w_progress := p\<rparr>) = calm w"
  "calm (w\<lparr>w_selection := x\<rparr>) = calm w"
  "calm (w\<lparr>w_isTranslating := b\<rparr>) = calm w"
  "effective_store (w\<lparr>w_trace := t\<rparr>) = effective_store w"
  "effective_store (w\<lparr>w_progress := p\<rparr>) = effective_store w"
  "effective_store (w\<lparr>w_selection := x\<rparr>) = effective_store w"
  "effective_store (w\<lparr>w_isTranslating := b\<rparr>) = effective_store w"
  by (simp_all add: calm_def effective_store_def)

lemma drain_calm:
  assumes "calm w"
  shows "w_store (drain w) = effective_store w"
    and "list_all (\<lambda>t. snd t = Finished) (w_tasks (drain w))"
    and "loaded (w_store (drain w))"
  using assms run_ready_calm [of "w_store w" "w_tasks w"]
  by (simp_all add: calm_def drain_def effective_store_def case_prod_beta)

lemma apply_event_still:
  assumes "list_all (\<lambda>t. snd t = Finished) (w_tasks w)" and "\<not> other_store ev"
  shows "w_store (apply_event ev w) = w_store w \<and> w_tasks (apply_event ev w) = w_tasks w"
proof (cases ev)
  case (GetResolves j)
  have "snd (w_tasks w ! j) = Finished" if "j < length (w_tasks w)"
    using assms(1) that by (simp add: list_all_length)
  with GetResolves show ?thesis by simp
next
  case (OtherProgress x)
  then show ?thesis by (cases x) simp_all
next
  case (OtherStore call)
  with assms(2) show ?thesis by (simp add: other_store_def)
qed simp_all

lemma foldl_events_still:
  assumes "list_all (\<lambda>t. snd t = Finished) (w_tasks w)"
    and "list_all (\<lambda>ev. \<not> other_store ev) evs"
  shows "w_store (foldl (\<lambda>w' ev. drain (apply_event ev w')) w evs) = w_store w
    \<and> w_tasks (foldl (\<lambda>w' ev. drain (apply_event ev w')) w evs) = w_tasks w"
  using assms
proof (induction evs arbitrary: w)
  case Nil
  then show ?case by simp
next
  case (Cons ev evs)
  from Cons.prems have ev: "\<not> other_store ev" and evs: "list_all (\<lambda>ev. \<not> other_store ev) evs"
    by simp_all
  from apply_event_still [OF Cons.prems(1) ev]
  have same: "w_store (apply_event ev w) = w_store w" "w_tasks (apply_event ev w) = w_tasks w"
    by simp_all
  have step: "w_store (drain (apply_event ev w)) = w_store w"
    "w_tasks (drain (apply_event ev w)) = w_tasks w"
    using Cons.prems(1) same by (simp_all add: drain_def run_ready_finished)
  from step Cons.prems(1) have fin: "list_all (\<lambda>t. snd t = Finished) (w_tasks (drain (apply_event ev w)))"
    by simp
  from Cons.IH [OF fin evs] step show ?case by simp
qed

lemma suspended_calm:
  assumes "calm w" and "list_all (\<lambda>ev. \<not> other_store ev) evs"
  shows "w_store (suspended evs w) = effective_store w"
    and "list_all (\<lambda>t. snd t = Finished) (w_tasks (suspended evs w))"
    and "loaded (w_store (suspended evs w))"
proof -
  note d = drain_calm [OF assms(1)]
  from foldl_events_still [OF d(2) assms(2)]
  have "w_store (suspended evs w) = w_store (drain w)"
    and "w_tasks (suspended evs w) = w_tasks (drain w)"
    by (simp_all add: suspended_def)
  with d show "w_store (suspended evs w) = effective_store w"
    and "list_all (\<lambda>t. snd t = Finished) (w_tasks (suspended evs w))"
    and "loaded (w_store (suspended evs w))" by simp_all
qed

lemma settle_calm:
  assumes "calm w"
  shows "w_store (settle w) = effective_store w"
    and "list_all (\<lambda>t. snd t = Finished) (w_tasks (settle w))"
proof -
  have "list_all (\<lambda>ev. \<not> other_store ev) (map GetResolves [0..<length (w_tasks w)])"
    by (simp add: list_all_iff other_store_def)
  from suspended_calm [OF assms this]
  show "w_store (settle w) = effective_store w"
    and "list_all (\<lambda>t. snd t = Finished) (w_tasks (settle w))"
    by (simp_all add: settle_def)
qed

lemma item_done_fields:
  "w_trace (item_done e i msg tv w)
     = w_trace w @ [Shown (msg_id msg) tv, Saved (msg_id msg) tv (savedModel e), Updated (int i + 1)]"
  "w_progress (item_done e i msg tv w) = updateProgress (Some (int i + 1)) (w_progress w)"
  by (simp_all add: item_done_def start_call_fields Let_def)

lemma item_done_calm:
  assumes "loaded (w_store w)" and "list_all (\<lambda>t. snd t = Finished) (w_tasks w)"
  shows "calm (item_done e i msg tv w)"
    and "effective_store (item_done e i msg tv w)
           = store_put (msg_id msg,
               \<lparr>sv_text = tv_text tv, sv_sourceLanguage = tv_sourceLanguage tv,
                sv_model = savedModel e, sv_timestamp = dateNow e i\<rparr>) (w_store w)"
proof -
  have tasks: "w_tasks (item_done e i msg tv w)
      = w_tasks w @ [(CallSave (msg_id msg) tv (savedModel e) (dateNow e i), AfterEnsureLoaded)]"
    and store: "w_store (item_done e i msg tv w) = w_store w"
    using assms(1) by (simp_all add: item_done_def start_call_def Let_def)
  show "calm (item_done e i msg tv w)"
    using assms by (simp add: calm_def tasks store list_all_iff)
  show "effective_store (item_done e i msg tv w)
           = store_put (msg_id msg,
               \<lparr>sv_text = tv_text tv, sv_sourceLanguage = tv_sourceLanguage tv,
                sv_model = savedModel e, sv_timestamp = dateNow e i\<rparr>) (w_store w)"
    unfolding effective_store_def tasks store run_ready_append
    by (simp add: run_ready_finished [OF assms(2)] save_body_def DataStore_set_def store_put_def
        Let_def)
qed

lemma fold_store_put_persisted:
  "entries \<noteq> [] \<Longrightarrow>
   persisted (fold store_put entries s) = Some (cache (fold store_put entries s))"
  by (induction entries rule: rev_induct) (simp_all add: store_put_def)

subsection \<open>The loop\<close>

lemma translate_loop_ended:
  "count_ended (w_trace (fst (translate_loop e msgs i w))) = count_ended (w_trace w)"
proof (induction msgs arbitrary: i w)
  case Nil
  then show ?case by simp
next
  case (Cons msg msgs)
  let ?w2 = "suspended (between e i)
               (w\<lparr>w_trace := w_trace w @ [Translate ''received'' (msg_content msg)]\<rparr>)"
  show ?case
  proof (cases "translate e i ''received'' (msg_content msg)")
    case (Inl err)
    then show ?thesis by (simp add: suspended_trace count_ended_def)
  next
    case (Inr tv)
    then show ?thesis
      using Cons [of "Suc i" "item_done e i msg tv ?w2"]
      by (simp add: item_done_fields suspended_trace count_ended_def)
  qed
qed

lemma translate_loop_trace_fails:
  assumes "n < length msgs"
    and "\<forall>j<n. translate e (i + j) ''received'' (msg_content (msgs ! j)) = Inr (r (i + j))"
    and "translate e (i + n) ''received'' (msg_content (msgs ! n)) = Inl err"
  shows "snd (translate_loop e msgs i w) = Some err
    \<and> w_trace (fst (translate_loop e msgs i w))
        = w_trace w @ items_trace e r i (take n msgs)
            @ [Translate ''received'' (msg_content (msgs ! n))]"
  using assms
proof (induction msgs arbitrary: i w n)
  case Nil
  then show ?case by simp
next
  case (Cons msg msgs)
  show ?case
  proof (cases n)
    case 0
    with Cons.prems show ?thesis by (simp add: suspended_trace)
  next
    case (Suc n')
    let ?w3 = "item_done e i msg (r i) (suspended (between e i)
                 (w\<lparr>w_trace := w_trace w @ [Translate ''received'' (msg_content msg)]\<rparr>))"
    from Cons.prems(2) Suc have first: "translate e i ''received'' (msg_content msg) = Inr (r i)"
      by (auto dest: spec [of _ 0])
    have len: "n' < length msgs" using Cons.prems(1) Suc by simp
    have rest: "\<forall>j<n'. translate e (Suc i + j) ''received'' (msg_content (msgs ! j))
                  = Inr (r (Suc i + j))"
    proof (intro allI impI)
      fix j assume "j < n'"
      then have "Suc j < n" using Suc by simp
      with Cons.prems(2) have "translate e (i + Suc j) ''received''
          (msg_content ((msg # msgs) ! Suc j)) = Inr (r (i + Suc j))" by blast
      then show "translate e (Suc i + j) ''received'' (msg_content (msgs ! j))
          = Inr (r (Suc i + j))" by simp
    qed
    have fail: "translate e (Suc i + n') ''received'' (msg_content (msgs ! n')) = Inl err"
      using Cons.prems(3) Suc by simp
    from Cons.IH [OF len rest fail, of ?w3] first Suc show ?thesis
      by (simp add: item_done_fields suspended_trace)
  qed
qed

lemma translate_loop_trace_succeeds:
  assumes "\<forall>j<length msgs. translate e (i + j) ''received'' (msg_content (msgs ! j))
             = Inr (r (i + j))"
  shows "snd (translate_loop e msgs i w) = None
    \<and> w_trace (fst (translate_loop e msgs i w)) = w_trace w @ items_trace e r i msgs"
  using assms
proof (induction msgs arbitrary: i w)
  case Nil
  then show ?case by simp
next
  case (Cons msg msgs)
  let ?w3 = "item_done e i msg (r i) (suspended (between e i)
               (w\<lparr>w_trace := w_trace w @ [Translate ''received'' (msg_content msg)]\<rparr>))"
  from Cons.prems have first: "translate e i ''received'' (msg_content msg) = Inr (r i)"
    by (auto dest: spec [of _ 0])
  have rest: "\<forall>j<length msgs. translate e (Suc i + j) ''received'' (msg_content (msgs ! j))
                = Inr (r (Suc i + j))"
  proof (intro allI impI)
    fix j assume "j < length msgs"
    then have "Suc j < length (msg # msgs)" by simp
    with Cons.prems have "translate e (i + Suc j) ''received''
        (msg_content ((msg # msgs) ! Suc j)) = Inr (r (i + Suc j))" by blast
    then show "translate e (Suc i + j) ''received'' (msg_content (msgs ! j))
        = Inr (r (Suc i + j))" by simp
  qed
  from Cons.IH [OF rest, of ?w3] first show ?case
    by (simp add: item_done_fields suspended_trace)
qed

lemma translate_loop_progress_succeeds:
  assumes "\<forall>j<length msgs. translate e (i + j) ''received'' (msg_content (msgs ! j))
             = Inr (r (i + j))"
    and "prog_pendingResets (w_progress w) = 0"
    and "\<forall>j<length msgs. list_all (\<lambda>ev. \<not> other_progress ev) (between e (i + j))"
  shows "prog_current (w_progress (fst (translate_loop e msgs i w)))
        = (if msgs = [] then prog_current (w_progress w) else int i + int (length msgs))
    \<and> prog_total (w_progress (fst (translate_loop e msgs i w))) = prog_total (w_progress w)"
  using assms
proof (induction msgs arbitrary: i w)
  case Nil
  then show ?case by simp
next
  case (Cons msg msgs)
  let ?w1 = "w\<lparr>w_trace := w_trace w @ [Translate ''received'' (msg_content msg)]\<rparr>"
  let ?w3 = "item_done e i msg (r i) (suspended (between e i) ?w1)"
  from Cons.prems(1) have first: "translate e i ''received'' (msg_content msg) = Inr (r i)"
    by (auto dest: spec [of _ 0])
  from Cons.prems(3) have quiet: "list_all (\<lambda>ev. \<not> other_progress ev) (between e i)"
    by (auto dest: spec [of _ 0])
  have same: "w_progress (suspended (between e i) ?w1) = w_progress w"
    using suspended_progress [OF quiet, of ?w1] Cons.prems(2) by simp
  have rest: "\<forall>j<length msgs. translate e (Suc i + j) ''received'' (msg_content (msgs ! j))
                = Inr (r (Suc i + j))"
  proof (intro allI impI)
    fix j assume "j < length msgs"
    then have "Suc j < length (msg # msgs)" by simp
    with Cons.prems(1) have "translate e (i + Suc j) ''received''
        (msg_content ((msg # msgs) ! Suc j)) = Inr (r (i + Suc j))" by blast
    then show "translate e (Suc i + j) ''received'' (msg_content (msgs ! j))
        = Inr (r (Suc i + j))" by simp
  qed
  have rest_quiet: "\<forall>j<length msgs. list_all (\<lambda>ev. \<not> other_progress ev) (between e (Suc i + j))"
  proof (intro allI impI)
    fix j assume "j < length msgs"
    then have "Suc j < length (msg # msgs)" by simp
    with Cons.prems(3) have "list_all (\<lambda>ev. \<not> other_progress ev) (between e (i + Suc j))"
      by blast
    then show "list_all (\<lambda>ev. \<not> other_progress ev) (between e (Suc i + j))" by simp
  qed
  have pending: "prog_pendingResets (w_progress ?w3) = 0"
    using Cons.prems(2) by (simp add: item_done_fields same updateProgress_def Let_def)
  from Cons.IH [OF rest pending rest_quiet] first show ?case
    by (simp add: item_done_fields same updateProgress_def Let_def)
qed

lemma translate_loop_store_fails:
  assumes "calm w" and "n < length msgs"
    and "\<forall>j\<le>n. list_all (\<lambda>ev. \<not> other_store ev) (between e (i + j))"
    and "\<forall>j<n. translate e (i + j) ''received'' (msg_content (msgs ! j)) = Inr (r (i + j))"
    and "translate e (i + n) ''received'' (msg_content (msgs ! n)) = Inl err"
  shows "w_store (fst (translate_loop e msgs i w))
        = fold store_put (saved_entries e r i (take n msgs)) (effective_store w)
    \<and> list_all (\<lambda>t. snd t = Finished) (w_tasks (fst (translate_loop e msgs i w)))"
  using assms
proof (induction msgs arbitrary: i w n)
  case Nil
  then show ?case by simp
next
  case (Cons msg msgs)
  let ?w1 = "w\<lparr>w_trace := w_trace w @ [Translate ''received'' (msg_content msg)]\<rparr>"
  let ?w2 = "suspended (between e i) ?w1"
  from Cons.prems(3) have quiet: "list_all (\<lambda>ev. \<not> other_store ev) (between e i)"
    by (auto dest: spec [of _ 0])
  have c1: "calm ?w1" using Cons.prems(1) by (simp add: calm_fields)
  note s2 = suspended_calm [OF c1 quiet]
  show ?case
  proof (cases n)
    case 0
    with Cons.prems(5) s2 show ?thesis by (simp add: calm_fields)
  next
    case (Suc n')
    let ?w3 = "item_done e i msg (r i) ?w2"
    from Cons.prems(4) Suc have first: "translate e i ''received'' (msg_content msg) = Inr (r i)"
      by (auto dest: spec [of _ 0])
    note d3 = item_done_calm [OF s2(3) s2(2), of e i msg "r i"]
    have len: "n' < length msgs" using Cons.prems(2) Suc by simp
    have rest_quiet: "\<forall>j\<le>n'. list_all (\<lambda>ev. \<not> other_store ev) (between e (Suc i + j))"
    proof (intro allI impI)
      fix j assume "j \<le> n'"
      then have "Suc j \<le> n" using Suc by simp
      with Cons.prems(3) have "list_all (\<lambda>ev. \<not> other_store ev) (between e (i + Suc j))"
        by blast
      then show "list_all (\<lambda>ev. \<not> other_store ev) (between e (Suc i + j))" by simp
    qed
    have rest: "\<forall>j<n'. translate e (Suc i + j) ''received'' (msg_content (msgs ! j))
                  = Inr (r (Suc i + j))"
    proof (intro allI impI)
      fix j assume "j < n'"
      then have "Suc j < n" using Suc by simp
      with Cons.prems(4) have "translate e (i + Suc j) ''received''
          (msg_content ((msg # msgs) ! Suc j)) = Inr (r (i + Suc j))" by blast
      then show "translate e (Suc i + j) ''received'' (msg_content (msgs ! j))
          = Inr (r (Suc i + j))" by simp
    qed
    have fail: "translate e (Suc i + n') ''received'' (msg_content (msgs ! n')) = Inl err"
      using Cons.prems(5) Suc by simp
    from Cons.IH [OF d3(1) len rest_quiet rest fail] first Suc d3(2) s2(1) show ?thesis
      by (simp add: calm_fields)
  qed
qed

lemma translate_loop_store_succeeds:
  assumes "calm w"
    and "\<forall>j<length msgs. list_all (\<lambda>ev. \<not> other_store ev) (between e (i + j))"
    and "\<forall>j<length msgs. translate e (i + j) ''received'' (msg_content (msgs ! j))
           = Inr (r (i + j))"
  shows "calm (fst (translate_loop e msgs i w))
    \<and> effective_store (fst (translate_loop e msgs i w))
        = fold store_put (saved_entries e r i msgs) (effective_store w)"
  using assms
proof (induction msgs arbitrary: i w)
  case Nil
  then show ?case by simp
next
  case (Cons msg msgs)
  let ?w1 = "w\<lparr>w_trace := w_trace w @ [Translate ''received'' (msg_content msg)]\<rparr>"
  let ?w2 = "suspended (between e i) ?w1"
  let ?w3 = "item_done e i msg (r i) ?w2"
  from Cons.prems(2) have quiet: "list_all (\<lambda>ev. \<not> other_store ev) (between e i)"
    by (auto dest: spec [of _ 0])
  have c1: "calm ?w1" using Cons.prems(1) by (simp add: calm_fields)
  note s2 = suspended_calm [OF c1 quiet]
  from Cons.prems(3) have first: "translate e i ''received'' (msg_content msg) = Inr (r i)"
    by (auto dest: spec [of _ 0])
  note d3 = item_done_calm [OF s2(3) s2(2), of e i msg "r i"]
  have rest_quiet: "\<forall>j<length msgs. list_all (\<lambda>ev. \<not> other_store ev) (between e (Suc i + j))"
  proof (intro allI impI)
    fix j assume "j < length msgs"
    then have "Suc j < length (msg # msgs)" by simp
    with Cons.prems(2) have "list_all (\<lambda>ev. \<not> other_store ev) (between e (i + Suc j))"
      by blast
    then show "list_all (\<lambda>ev. \<not> other_store ev) (between e (Suc i + j))" by simp
  qed
  have rest: "\<forall>j<length msgs. translate e (Suc i + j) ''received'' (msg_content (msgs ! j))
                = Inr (r (Suc i + j))"
  proof (intro allI impI)
    fix j assume "j < length msgs"
    then have "Suc j < length (msg # msgs)" by simp
    with Cons.prems(3) have "translate e (i + Suc j) ''received''
        (msg_content ((msg # msgs) ! Suc j)) = Inr (r (i + Suc j))" by blast
    then show "translate e (Suc i + j) ''received'' (msg_content (msgs ! j))
        = Inr (r (Suc i + j))" by simp
  qed
  from Cons.IH [OF d3(1) rest_quiet rest] first d3(2) s2(1) show ?case
    by (simp add: calm_fields)
qed

lemma handleTranslateSelected_unfold:
  assumes "\<not> falsy (currentChannelId (w_selection w))" and "selectedIds (w_selection w) \<noteq> []"
  shows "handleTranslateSelected e w =
     (let msgs = selectedMessages e w;
          w1 = w\<lparr>w_isTranslating := True,
                 w_progress := startProgress (int (length msgs)) (w_progress w),
                 w_trace := w_trace w @ [ProgressStarted (int (length msgs))]\<rparr>;
          w2 = fst (translate_loop e msgs 0 w1);
          err = snd (translate_loop e msgs 0 w1);
          w3 = w2\<lparr>w_trace := w_trace w2 @
                 [case err of
                    None \<Rightarrow>
                      Toast (''Translated '' @ string_of_nat (length msgs) @ '' messages'') SUCCESS
                  | Some (Error m) \<Rightarrow> Toast m FAILURE
                  | Some NonError \<Rightarrow> Toast ''Translation failed'' FAILURE]\<rparr>
      in w3\<lparr>w_progress := endProgress (w_progress w3),
            w_isTranslating := False,
            w_selection := exitSelectionMode (w_selection w3),
            w_trace := w_trace w3 @ [Ended, Exited]\<rparr>)"
  using assms
  by (simp add: handleTranslateSelected_def getSelectedCount_def Let_def split: prod.split)

lemma undisturbed_start:
  assumes "store_undisturbed e n w"
  shows "calm (w\<lparr>w_isTranslating := b, w_progress := p, w_trace := t\<rparr>)"
    and "effective_store (w\<lparr>w_isTranslating := b, w_progress := p, w_trace := t\<rparr>) = w_store w"
  using assms
  by (simp_all add: store_undisturbed_def calm_def effective_store_def run_ready_finished
      list_all_iff)

lemma undisturbed_between:
  assumes "store_undisturbed e n w"
  shows "\<forall>j<n. list_all (\<lambda>ev. \<not> other_store ev) (between e j)"
  using assms by (simp add: store_undisturbed_def list_all_iff)

subsection \<open>The handler\<close>

text \<open>
  Claim C1: a batch that passes the guard of the handler (a channel is bound and the
  selection is not empty) always ends progress exactly once and leaves selection mode,
  whether it finished or aborted, and whatever happens while it is suspended. When, among
  the \<open>N\<close> resolved messages, the provider call for the \<open>k\<close>-th fails after the calls
  before it succeeded, the handler has called the provider for the first \<open>k\<close> messages
  only and has called \<open>save\<close> for exactly the \<open>k - 1\<close> translations before the failing
  one: the events are the start of progress, the four events of each of the first
  \<open>k - 1\<close> messages, the failing call, the failure toast, the end of progress and the exit
  from selection mode. The handler does not await the saves; when nothing but the batch
  touches the store, which is hydrated, then at the return of the handler the \<open>k - 1\<close>
  entries are written to the cache in order, the cache is what is persisted, and no save
  is left in flight.
\<close>

theorem batch_partial_failure:
  assumes "\<not> falsy (currentChannelId (w_selection w))"
    and "selectedIds (w_selection w) \<noteq> []"
  shows "w_selection (handleTranslateSelected e w)
           = \<lparr>isSelectionMode = False, selectedIds = [], currentChannelId = None,
              lastSelectedId = None\<rparr>
    \<and> count_ended (w_trace (handleTranslateSelected e w)) = Suc (count_ended (w_trace w))
    \<and> \<not> prog_isTranslating (w_progress (handleTranslateSelected e w))
    \<and> (1 \<le> k \<and> k \<le> length (selectedMessages e w)
        \<and> (\<forall>i<k - 1. translate e i ''received'' (msg_content (selectedMessages e w ! i))
               = Inr (r i))
        \<and> translate e (k - 1) ''received'' (msg_content (selectedMessages e w ! (k - 1)))
            = Inl err
       \<longrightarrow>
         w_trace (handleTranslateSelected e w)
           = w_trace w @ [ProgressStarted (int (length (selectedMessages e w)))]
               @ items_trace e r 0 (take (k - 1) (selectedMessages e w))
               @ [Translate ''received'' (msg_content (selectedMessages e w ! (k - 1))),
                  Toast (case err of Error m \<Rightarrow> m | NonError \<Rightarrow> ''Translation failed'') FAILURE,
                  Ended, Exited]
         \<and> count_saved (w_trace (handleTranslateSelected e w))
             = count_saved (w_trace w) + (k - 1)
         \<and> count_translate (w_trace (handleTranslateSelected e w))
             = count_translate (w_trace w) + k
         \<and> (store_undisturbed e k w \<longrightarrow>
               w_store (handleTranslateSelected e w)
                 = fold store_put (saved_entries e r 0 (take (k - 1) (selectedMessages e w)))
                     (w_store w)
               \<and> list_all (\<lambda>t. snd t = Finished) (w_tasks (handleTranslateSelected e w))
               \<and> (2 \<le> k \<longrightarrow>
                     persisted (w_store (handleTranslateSelected e w))
                       = Some (cache (w_store (handleTranslateSelected e w))))))"
proof -
  let ?msgs = "selectedMessages e w"
  let ?w1 = "w\<lparr>w_isTranslating := True,
               w_progress := startProgress (int (length ?msgs)) (w_progress w),
               w_trace := w_trace w @ [ProgressStarted (int (length ?msgs))]\<rparr>"
  note unfold = handleTranslateSelected_unfold [OF assms, of e]
  note ended_loop = translate_loop_ended [of e ?msgs 0 ?w1]
  have sel: "w_selection (handleTranslateSelected e w)
      = \<lparr>isSelectionMode = False, selectedIds = [], currentChannelId = None,
         lastSelectedId = None\<rparr>"
    by (simp add: unfold Let_def exitSelectionMode_def)
  have ended: "count_ended (w_trace (handleTranslateSelected e w)) = Suc (count_ended (w_trace w))"
    using ended_loop
    by (simp add: unfold Let_def count_ended_def split: option.split thrown.split)
  have idle: "\<not> prog_isTranslating (w_progress (handleTranslateSelected e w))"
    by (simp add: unfold Let_def endProgress_def)
  have failing: "w_trace (handleTranslateSelected e w)
           = w_trace w @ [ProgressStarted (int (length ?msgs))]
               @ items_trace e r 0 (take (k - 1) ?msgs)
               @ [Translate ''received'' (msg_content (?msgs ! (k - 1))),
                  Toast (case err of Error m \<Rightarrow> m | NonError \<Rightarrow> ''Translation failed'') FAILURE,
                  Ended, Exited]
         \<and> count_saved (w_trace (handleTranslateSelected e w))
             = count_saved (w_trace w) + (k - 1)
         \<and> count_translate (w_trace (handleTranslateSelected e w))
             = count_translate (w_trace w) + k
         \<and> (store_undisturbed e k w \<longrightarrow>
               w_store (handleTranslateSelected e w)
                 = fold store_put (saved_entries e r 0 (take (k - 1) ?msgs)) (w_store w)
               \<and> list_all (\<lambda>t. snd t = Finished) (w_tasks (handleTranslateSelected e w))
               \<and> (2 \<le> k \<longrightarrow>
                     persisted (w_store (handleTranslateSelected e w))
                       = Some (cache (w_store (handleTranslateSelected e w)))))"
    if k: "1 \<le> k" "k \<le> length ?msgs"
      and ok: "\<forall>i<k - 1. translate e i ''received'' (msg_content (?msgs ! i)) = Inr (r i)"
      and bad: "translate e (k - 1) ''received'' (msg_content (?msgs ! (k - 1))) = Inl err"
  proof -
    from k have n: "k - 1 < length ?msgs" by simp
    from ok have ok': "\<forall>j<k - 1. translate e (0 + j) ''received'' (msg_content (?msgs ! j))
        = Inr (r (0 + j))" by simp
    from bad have bad': "translate e (0 + (k - 1)) ''received'' (msg_content (?msgs ! (k - 1)))
        = Inl err" by simp
    note loop = translate_loop_trace_fails [OF n ok' bad', of ?w1]
    have tr: "w_trace (handleTranslateSelected e w)
           = w_trace w @ [ProgressStarted (int (length ?msgs))]
               @ items_trace e r 0 (take (k - 1) ?msgs)
               @ [Translate ''received'' (msg_content (?msgs ! (k - 1))),
                  Toast (case err of Error m \<Rightarrow> m | NonError \<Rightarrow> ''Translation failed'') FAILURE,
                  Ended, Exited]"
      using loop by (cases err) (simp_all add: unfold Let_def)
    have len: "length (take (k - 1) ?msgs) = k - 1" using n by simp
    have cs: "count_saved (w_trace (handleTranslateSelected e w))
        = count_saved (w_trace w) + (k - 1)"
      unfolding tr count_append count_items_trace len
      by (simp add: count_saved_def)
    have ct: "count_translate (w_trace (handleTranslateSelected e w))
        = count_translate (w_trace w) + k"
      unfolding tr count_append count_items_trace len
      using k by (simp add: count_translate_def)
    have st: "w_store (handleTranslateSelected e w)
                 = fold store_put (saved_entries e r 0 (take (k - 1) ?msgs)) (w_store w)
               \<and> list_all (\<lambda>t. snd t = Finished) (w_tasks (handleTranslateSelected e w))
               \<and> (2 \<le> k \<longrightarrow>
                     persisted (w_store (handleTranslateSelected e w))
                       = Some (cache (w_store (handleTranslateSelected e w))))"
      if quiet: "store_undisturbed e k w"
    proof -
      note start = undisturbed_start [OF quiet, where b = True
          and p = "startProgress (int (length ?msgs)) (w_progress w)"
          and t = "w_trace w @ [ProgressStarted (int (length ?msgs))]"]
      from undisturbed_between [OF quiet] k
      have q': "\<forall>j\<le>k - 1. list_all (\<lambda>ev. \<not> other_store ev) (between e (0 + j))"
        by simp
      from translate_loop_store_fails [OF start(1) n q' ok' bad'] start(2)
      have store: "w_store (fst (translate_loop e ?msgs 0 ?w1))
            = fold store_put (saved_entries e r 0 (take (k - 1) ?msgs)) (w_store w)"
        and tasks: "list_all (\<lambda>t. snd t = Finished) (w_tasks (fst (translate_loop e ?msgs 0 ?w1)))"
        by simp_all
      have s: "w_store (handleTranslateSelected e w)
            = fold store_put (saved_entries e r 0 (take (k - 1) ?msgs)) (w_store w)"
        using store by (simp add: unfold Let_def)
      have t: "list_all (\<lambda>t. snd t = Finished) (w_tasks (handleTranslateSelected e w))"
        using tasks by (simp add: unfold Let_def)
      have p: "persisted (w_store (handleTranslateSelected e w))
            = Some (cache (w_store (handleTranslateSelected e w)))" if "2 \<le> k"
      proof -
        from that n have "saved_entries e r 0 (take (k - 1) ?msgs) \<noteq> []"
          using length_saved_entries [of e r 0 "take (k - 1) ?msgs"] by auto
        then show ?thesis unfolding s by (rule fold_store_put_persisted)
      qed
      from s t p show ?thesis by blast
    qed
    from tr cs ct st show ?thesis by blast
  qed
  from sel ended idle failing show ?thesis by blast
qed

theorem batch_partial_failure_witness:
  "\<not> falsy (currentChannelId (w_selection demo5_world))
   \<and> selectedIds (w_selection demo5_world) \<noteq> []
   \<and> (1 :: nat) \<le> 3 \<and> 3 \<le> length (selectedMessages demo5_env demo5_world)
   \<and> map msg_id (selectedMessages demo5_env demo5_world) = [''m1'', ''m2'', ''m3'', ''m4'', ''m5'']
   \<and> translate demo5_env 2 ''received''
        (msg_content (selectedMessages demo5_env demo5_world ! 2)) = Inl (Error ''quota'')
   \<and> store_undisturbed demo5_env 3 demo5_world
   \<and> count_saved (w_trace (handleTranslateSelected demo5_env demo5_world)) = 2
   \<and> count_translate (w_trace (handleTranslateSelected demo5_env demo5_world)) = 3
   \<and> count_ended (w_trace (handleTranslateSelected demo5_env demo5_world)) = 1
   \<and> map fst (cache (w_store (handleTranslateSelected demo5_env demo5_world))) = [''m1'', ''m2'']
   \<and> persisted (w_store (handleTranslateSelected demo5_env demo5_world))
       = Some (cache (w_store (handleTranslateSelected demo5_env demo5_world)))
   \<and> \<not> isSelectionMode (w_selection (handleTranslateSelected demo5_env demo5_world))"
proof -
  let ?r = "\<lambda>i. \<lparr>tv_text = msg_content (selectedMessages demo5_env demo5_world ! i) @ ''!'',
                  tv_sourceLanguage = ''en''\<rparr>"
  have sel: "w_selection demo5_world
      = \<lparr>isSelectionMode = True, selectedIds = [''m1'', ''m2'', ''m9'', ''m3'', ''m4'', ''m5''],
         currentChannelId = Some ''c1'', lastSelectedId = Some ''m5''\<rparr>"
    by (simp add: demo5_world_def world_init_def selection_init_def toggleSelectionMode_def
        toggleMessageSelection_def falsy_def set_has_def set_add_def Let_def)
  have msgs: "selectedMessages demo5_env demo5_world
      = [\<lparr>msg_id = ''m1'', msg_content = ''a''\<rparr>, \<lparr>msg_id = ''m2'', msg_content = ''b''\<rparr>,
         \<lparr>msg_id = ''m3'', msg_content = ''c''\<rparr>, \<lparr>msg_id = ''m4'', msg_content = ''d''\<rparr>,
         \<lparr>msg_id = ''m5'', msg_content = ''e''\<rparr>]"
    by (simp add: selectedMessages_def sel demo5_env_def set_has_def)
  have g1: "\<not> falsy (currentChannelId (w_selection demo5_world))"
    by (simp add: sel falsy_def)
  have g2: "selectedIds (w_selection demo5_world) \<noteq> []"
    by (simp add: sel)
  have tr0: "w_trace demo5_world = []"
    and st0: "w_store demo5_world = \<lparr>cache = [], loaded = True, persisted = None, gets = 1\<rparr>"
    and ts0: "w_tasks demo5_world = []"
    by (simp_all add: demo5_world_def world_init_def TranslationStore_load_def ensureLoaded_def
        DataStore_get_def ensureLoaded_resume_def fresh_store_def)
  have between: "between demo5_env i
      = (if i = 1 then [TimerFires, OtherSelection (Select ''m0'' ''c1'')] else [])" for i
    by (simp add: demo5_env_def)
  have quiet: "store_undisturbed demo5_env 3 demo5_world"
    by (auto simp: store_undisturbed_def st0 ts0 between other_store_def list_all_iff)
  have k: "(1 :: nat) \<le> 3 \<and> 3 \<le> length (selectedMessages demo5_env demo5_world)"
    by (simp add: msgs)
  have ok: "\<forall>i<3 - 1. translate demo5_env i ''received''
      (msg_content (selectedMessages demo5_env demo5_world ! i)) = Inr (?r i)"
    by (simp add: demo5_env_def)
  have bad: "translate demo5_env (3 - 1) ''received''
      (msg_content (selectedMessages demo5_env demo5_world ! (3 - 1))) = Inl (Error ''quota'')"
    by (simp add: demo5_env_def)
  note inst = batch_partial_failure [OF g1 g2, of demo5_env 3 ?r "Error ''quota''"]
  have hyp: "(1 :: nat) \<le> 3 \<and> 3 \<le> length (selectedMessages demo5_env demo5_world)
      \<and> (\<forall>i<3 - 1. translate demo5_env i ''received''
             (msg_content (selectedMessages demo5_env demo5_world ! i)) = Inr (?r i))
      \<and> translate demo5_env (3 - 1) ''received''
            (msg_content (selectedMessages demo5_env demo5_world ! (3 - 1))) = Inl (Error ''quota'')"
    using k ok bad by (intro conjI) (elim conjE, assumption)+
  note sel' = inst [THEN conjunct1]
  note ended' = inst [THEN conjunct2, THEN conjunct1]
  note failing = inst [THEN conjunct2, THEN conjunct2, THEN conjunct2, THEN mp, OF hyp]
  note saved' = failing [THEN conjunct2, THEN conjunct1]
  note called' = failing [THEN conjunct2, THEN conjunct2, THEN conjunct1]
  note stored = failing [THEN conjunct2, THEN conjunct2, THEN conjunct2, THEN mp, OF quiet]
  have two: "(2 :: nat) \<le> 3" by simp
  note persisted' = stored [THEN conjunct2, THEN conjunct2, THEN mp, OF two]
  have res: "count_saved (w_trace (handleTranslateSelected demo5_env demo5_world)) = 2"
    "count_translate (w_trace (handleTranslateSelected demo5_env demo5_world)) = 3"
    "count_ended (w_trace (handleTranslateSelected demo5_env demo5_world)) = 1"
    "\<not> isSelectionMode (w_selection (handleTranslateSelected demo5_env demo5_world))"
    using saved' called' ended' sel'
    by (simp_all add: tr0 count_saved_def count_translate_def count_ended_def)
  have st: "map fst (cache (w_store (handleTranslateSelected demo5_env demo5_world)))
      = [''m1'', ''m2'']"
    unfolding stored [THEN conjunct1] by (simp add: msgs st0 store_put_def)
  from g1 g2 k quiet res st bad persisted' show ?thesis by (simp add: msgs)
qed

text \<open>
  On a store that is not hydrated the saves of one batch are in the race of the section
  on the result cache: with a provider that answers before the first \<open>DataStore.get\<close>
  delivers, both saves start a load of their own, and the first entry is lost.
\<close>

lemma batch_on_cold_store:
  "map fst (cache (w_store (settle (handleTranslateSelected (demo_env\<lparr>between := (\<lambda>i. [])\<rparr>)
      (demo_world\<lparr>w_store := fresh_store None\<rparr>))))) = [''m2'']
   \<and> gets (w_store (settle (handleTranslateSelected (demo_env\<lparr>between := (\<lambda>i. [])\<rparr>)
      (demo_world\<lparr>w_store := fresh_store None\<rparr>)))) = 2"
  by code_simp

text \<open>
  A reset timer that an earlier \<open>endProgress\<close> left pending and that fires during the
  batch sets the total to 0, and the batch goes on counting.
\<close>

lemma batch_with_pending_reset:
  "prog_total (w_progress (handleTranslateSelected demo_env
      (demo_world\<lparr>w_progress := endProgress progress_init\<rparr>))) = 0
   \<and> prog_current (w_progress (handleTranslateSelected demo_env
      (demo_world\<lparr>w_progress := endProgress progress_init\<rparr>))) = 2"
  by code_simp

text \<open>
  Claim C8, as stated, fails on the order: the handler does not walk the selection set
  but filters the message list of the channel, so the messages are translated in the
  order of that list. With \<open>m2\<close> selected before \<open>m1\<close>, \<open>m1\<close> is translated and saved
  first.
\<close>

theorem batch_order_counterexample:
  "selectedIds (w_selection demo_world) = [''m2'', ''m9'', ''m1'']
   \<and> w_trace (handleTranslateSelected demo_env demo_world)
     = [ProgressStarted 2,
        Translate ''received'' ''hello'',
        Shown ''m1'' \<lparr>tv_text = ''hello!'', tv_sourceLanguage = ''en''\<rparr>,
        Saved ''m1'' \<lparr>tv_text = ''hello!'', tv_sourceLanguage = ''en''\<rparr> None,
        Updated 1,
        Translate ''received'' ''world'',
        Shown ''m2'' \<lparr>tv_text = ''world!'', tv_sourceLanguage = ''en''\<rparr>,
        Saved ''m2'' \<lparr>tv_text = ''world!'', tv_sourceLanguage = ''en''\<rparr> None,
        Updated 2,
        Toast ''Translated 2 messages'' SUCCESS, Ended, Exited]"
  by code_simp

text \<open>
  Claim C8, amended: with a channel bound and a selection that is not empty, the handler
  takes the messages of the channel's message list that are selected and have content,
  in the order of that list, starts progress with their number as total, and, while the
  provider succeeds, handles them one after the other in that order: it calls the
  provider, shows the result, calls \<open>save\<close> for it and sets progress to the number of
  messages done. When nothing but the batch touches the progress tracker, total and
  current both are that number at the return of the handler. The handler does not await
  the saves; when nothing but the batch touches the store, which is hydrated, then once
  the saves in flight have run the entries are written to the cache in that order and
  the cache is what is persisted.
\<close>

theorem batch_sequential:
  assumes "currentChannelId (w_selection w) = Some c" and "c \<noteq> []"
    and "selectedIds (w_selection w) \<noteq> []"
  shows "selectedMessages e w
           = filter (\<lambda>m. msg_id m \<in> set (selectedIds (w_selection w)) \<and> msg_content m \<noteq> [])
               (getMessages e c)
    \<and> ((\<forall>i<length (selectedMessages e w).
           translate e i ''received'' (msg_content (selectedMessages e w ! i)) = Inr (r i))
       \<longrightarrow>
         w_trace (handleTranslateSelected e w)
           = w_trace w @ [ProgressStarted (int (length (selectedMessages e w)))]
               @ items_trace e r 0 (selectedMessages e w)
               @ [Toast (''Translated '' @ string_of_nat (length (selectedMessages e w))
                           @ '' messages'') SUCCESS,
                  Ended, Exited]
         \<and> (progress_undisturbed e (length (selectedMessages e w)) w \<longrightarrow>
               prog_total (w_progress (handleTranslateSelected e w))
                 = int (length (selectedMessages e w))
               \<and> prog_current (w_progress (handleTranslateSelected e w))
                   = int (length (selectedMessages e w)))
         \<and> (store_undisturbed e (length (selectedMessages e w)) w \<longrightarrow>
               w_store (settle (handleTranslateSelected e w))
                 = fold store_put (saved_entries e r 0 (selectedMessages e w)) (w_store w)
               \<and> list_all (\<lambda>t. snd t = Finished)
                   (w_tasks (settle (handleTranslateSelected e w)))
               \<and> (selectedMessages e w \<noteq> [] \<longrightarrow>
                     persisted (w_store (settle (handleTranslateSelected e w)))
                       = Some (cache (w_store (settle (handleTranslateSelected e w)))))))"
proof -
  let ?msgs = "selectedMessages e w"
  let ?w1 = "w\<lparr>w_isTranslating := True,
               w_progress := startProgress (int (length ?msgs)) (w_progress w),
               w_trace := w_trace w @ [ProgressStarted (int (length ?msgs))]\<rparr>"
  have guard: "\<not> falsy (currentChannelId (w_selection w))"
    using assms by (simp add: falsy_def)
  note unfold = handleTranslateSelected_unfold [OF guard assms(3), of e]
  have resolved: "?msgs = filter (\<lambda>m. msg_id m \<in> set (selectedIds (w_selection w))
      \<and> msg_content m \<noteq> []) (getMessages e c)"
    using assms by (simp add: selectedMessages_def set_has_def)
  have run: "w_trace (handleTranslateSelected e w)
           = w_trace w @ [ProgressStarted (int (length ?msgs))] @ items_trace e r 0 ?msgs
               @ [Toast (''Translated '' @ string_of_nat (length ?msgs) @ '' messages'') SUCCESS,
                  Ended, Exited]
         \<and> (progress_undisturbed e (length ?msgs) w \<longrightarrow>
               prog_total (w_progress (handleTranslateSelected e w)) = int (length ?msgs)
               \<and> prog_current (w_progress (handleTranslateSelected e w)) = int (length ?msgs))
         \<and> (store_undisturbed e (length ?msgs) w \<longrightarrow>
               w_store (settle (handleTranslateSelected e w))
                 = fold store_put (saved_entries e r 0 ?msgs) (w_store w)
               \<and> list_all (\<lambda>t. snd t = Finished)
                   (w_tasks (settle (handleTranslateSelected e w)))
               \<and> (?msgs \<noteq> [] \<longrightarrow>
                     persisted (w_store (settle (handleTranslateSelected e w)))
                       = Some (cache (w_store (settle (handleTranslateSelected e w))))))"
    if ok: "\<forall>i<length ?msgs. translate e i ''received'' (msg_content (?msgs ! i)) = Inr (r i)"
  proof -
    from ok have ok': "\<forall>j<length ?msgs. translate e (0 + j) ''received''
        (msg_content (?msgs ! j)) = Inr (r (0 + j))" by simp
    note loop = translate_loop_trace_succeeds [OF ok', of ?w1]
    have tr: "w_trace (handleTranslateSelected e w)
           = w_trace w @ [ProgressStarted (int (length ?msgs))] @ items_trace e r 0 ?msgs
               @ [Toast (''Translated '' @ string_of_nat (length ?msgs) @ '' messages'') SUCCESS,
                  Ended, Exited]"
      using loop by (simp add: unfold Let_def)
    have pr: "prog_total (w_progress (handleTranslateSelected e w)) = int (length ?msgs)
        \<and> prog_current (w_progress (handleTranslateSelected e w)) = int (length ?msgs)"
      if quiet: "progress_undisturbed e (length ?msgs) w"
    proof -
      from quiet have pending: "prog_pendingResets (w_progress ?w1) = 0"
        by (simp add: progress_undisturbed_def startProgress_def)
      from quiet have q: "\<forall>j<length ?msgs.
          list_all (\<lambda>ev. \<not> other_progress ev) (between e (0 + j))"
        by (simp add: progress_undisturbed_def list_all_iff)
      from translate_loop_progress_succeeds [OF ok' pending q] show ?thesis
        by (simp add: unfold Let_def endProgress_def startProgress_def)
    qed
    have st: "w_store (settle (handleTranslateSelected e w))
                 = fold store_put (saved_entries e r 0 ?msgs) (w_store w)
               \<and> list_all (\<lambda>t. snd t = Finished)
                   (w_tasks (settle (handleTranslateSelected e w)))
               \<and> (?msgs \<noteq> [] \<longrightarrow>
                     persisted (w_store (settle (handleTranslateSelected e w)))
                       = Some (cache (w_store (settle (handleTranslateSelected e w)))))"
      if quiet: "store_undisturbed e (length ?msgs) w"
    proof -
      note start = undisturbed_start [OF quiet, where b = True
          and p = "startProgress (int (length ?msgs)) (w_progress w)"
          and t = "w_trace w @ [ProgressStarted (int (length ?msgs))]"]
      from undisturbed_between [OF quiet]
      have q: "\<forall>j<length ?msgs. list_all (\<lambda>ev. \<not> other_store ev) (between e (0 + j))"
        by simp
      from translate_loop_store_succeeds [OF start(1) q ok'] start(2)
      have c: "calm (fst (translate_loop e ?msgs 0 ?w1))"
        and eff: "effective_store (fst (translate_loop e ?msgs 0 ?w1))
            = fold store_put (saved_entries e r 0 ?msgs) (w_store w)"
        by simp_all
      have c': "calm (handleTranslateSelected e w)"
        using c by (simp add: unfold Let_def calm_def)
      have eff': "effective_store (handleTranslateSelected e w)
            = fold store_put (saved_entries e r 0 ?msgs) (w_store w)"
        using eff by (simp add: unfold Let_def effective_store_def)
      note settled = settle_calm [OF c']
      have s: "w_store (settle (handleTranslateSelected e w))
            = fold store_put (saved_entries e r 0 ?msgs) (w_store w)"
        using settled(1) eff' by simp
      have p: "persisted (w_store (settle (handleTranslateSelected e w)))
            = Some (cache (w_store (settle (handleTranslateSelected e w))))" if "?msgs \<noteq> []"
      proof -
        from that have "saved_entries e r 0 ?msgs \<noteq> []"
          using length_saved_entries [of e r 0 ?msgs] by auto
        then show ?thesis unfolding s by (rule fold_store_put_persisted)
      qed
      from s settled(2) p show ?thesis by blast
    qed
    from tr pr st show ?thesis by blast
  qed
  from resolved run show ?thesis by blast
qed

theorem batch_sequential_witness:
  "currentChannelId (w_selection demo_world) = Some ''c1'' \<and> ''c1'' \<noteq> []
   \<and> selectedIds (w_selection demo_world) = [''m2'', ''m9'', ''m1'']
   \<and> map msg_id (getMessages demo_env ''c1'') = [''m1'', ''m9'', ''m2'']
   \<and> map msg_id (selectedMessages demo_env demo_world) = [''m1'', ''m2'']
   \<and> progress_undisturbed demo_env 2 demo_world
   \<and> store_undisturbed demo_env 2 demo_world
   \<and> map fst (cache (w_store (settle (handleTranslateSelected demo_env demo_world))))
       = [''m1'', ''m2'']
   \<and> persisted (w_store (settle (handleTranslateSelected demo_env demo_world)))
       = Some (cache (w_store (settle (handleTranslateSelected demo_env demo_world))))
   \<and> prog_total (w_progress (handleTranslateSelected demo_env demo_world)) = 2
   \<and> prog_current (w_progress (handleTranslateSelected demo_env demo_world)) = 2"
proof -
  let ?r = "\<lambda>i. \<lparr>tv_text = msg_content (selectedMessages demo_env demo_world ! i) @ ''!'',
                  tv_sourceLanguage = ''en''\<rparr>"
  have sel: "w_selection demo_world
      = \<lparr>isSelectionMode = True, selectedIds = [''m2'', ''m9'', ''m1''],
         currentChannelId = Some ''c1'', lastSelectedId = Some ''m1''\<rparr>"
    by (simp add: demo_world_def world_init_def selection_init_def toggleSelectionMode_def
        toggleMessageSelection_def falsy_def set_has_def set_add_def Let_def)
  have all: "map msg_id (getMessages demo_env ''c1'') = [''m1'', ''m9'', ''m2'']"
    by (simp add: demo_env_def)
  have msgs: "selectedMessages demo_env demo_world
      = [\<lparr>msg_id = ''m1'', msg_content = ''hello''\<rparr>, \<lparr>msg_id = ''m2'', msg_content = ''world''\<rparr>]"
    by (simp add: selectedMessages_def sel demo_env_def set_has_def)
  have st0: "w_store demo_world = \<lparr>cache = [], loaded = True, persisted = None, gets = 1\<rparr>"
    and ts0: "w_tasks demo_world = []"
    and pr0: "w_progress demo_world = progress_init"
    by (simp_all add: demo_world_def world_init_def TranslationStore_load_def ensureLoaded_def
        DataStore_get_def ensureLoaded_resume_def fresh_store_def)
  have between: "between demo_env i = (if i = 1 then [TimerFires, OtherSelection Exit] else [])"
    for i by (simp add: demo_env_def)
  have a: "currentChannelId (w_selection demo_world) = Some ''c1''" by (simp add: sel)
  have b: "''c1'' \<noteq> []" by simp
  have c: "selectedIds (w_selection demo_world) \<noteq> []" by (simp add: sel)
  have quiet_p: "progress_undisturbed demo_env (length (selectedMessages demo_env demo_world))
      demo_world"
    by (auto simp: progress_undisturbed_def pr0 progress_init_def between other_progress_def
        list_all_iff)
  have quiet_s: "store_undisturbed demo_env (length (selectedMessages demo_env demo_world))
      demo_world"
    by (auto simp: store_undisturbed_def st0 ts0 between other_store_def list_all_iff)
  have ok: "\<forall>i<length (selectedMessages demo_env demo_world).
      translate demo_env i ''received'' (msg_content (selectedMessages demo_env demo_world ! i))
      = Inr (?r i)"
    by (simp add: demo_env_def)
  have ne: "selectedMessages demo_env demo_world \<noteq> []" by (simp add: msgs)
  note inst = batch_sequential [OF a b c, of demo_env ?r]
  note success = inst [THEN conjunct2, THEN mp, OF ok]
  note progress = success [THEN conjunct2, THEN conjunct1, THEN mp, OF quiet_p]
  note stored = success [THEN conjunct2, THEN conjunct2, THEN mp, OF quiet_s]
  note persisted' = stored [THEN conjunct2, THEN conjunct2, THEN mp, OF ne]
  have st: "map fst (cache (w_store (settle (handleTranslateSelected demo_env demo_world))))
      = [''m1'', ''m2'']"
    unfolding stored [THEN conjunct1] by (simp add: msgs st0 store_put_def)
  from progress have pr: "prog_total (w_progress (handleTranslateSelected demo_env demo_world)) = 2"
    "prog_current (w_progress (handleTranslateSelected demo_env demo_world)) = 2"
    by (simp_all add: msgs)
  have two: "length (selectedMessages demo_env demo_world) = 2" by (simp add: msgs)
  note quiet = quiet_p [unfolded two] quiet_s [unfolded two]
  from a sel all quiet st persisted' pr show ?thesis by (simp add: msgs)
qed

section \<open>Properties of the LLM backend\<close>

lemma set_insert_sorted: "set (insert_sorted cmp x ys) = insert x (set ys)"
  by (induction ys) auto

lemma length_insert_sorted: "length (insert_sorted cmp x ys) = Suc (length ys)"
  by (induction ys) auto

lemma sorted_insert_sorted:
  assumes total: "\<forall>a b. cmp a b \<le> 0 \<or> cmp b a \<le> 0"
    and trans: "\<forall>a b c. cmp a b \<le> 0 \<and> cmp b c \<le> 0 \<longrightarrow> cmp a c \<le> 0"
    and sorted: "sorted_wrt (\<lambda>a b. cmp a b \<le> 0) ys"
  shows "sorted_wrt (\<lambda>a b. cmp a b \<le> 0) (insert_sorted cmp x ys)"
  using sorted
proof (induction ys)
  case Nil
  then show ?case by simp
next
  case (Cons y ys)
  show ?case
  proof (cases "cmp x y \<le> 0")
    case True
    have "\<forall>z \<in> set ys. cmp x z \<le> 0"
    proof
      fix z assume "z \<in> set ys"
      with Cons.prems have "cmp y z \<le> 0" by simp
      with True trans show "cmp x z \<le> 0" by blast
    qed
    with True Cons.prems show ?thesis by simp
  next
    case False
    with total have "cmp y x \<le> 0" by blast
    with False Cons show ?thesis by (auto simp: set_insert_sorted)
  qed
qed

lemma js_sort_props:
  assumes "\<forall>a b. cmp a b \<le> 0 \<or> cmp b a \<le> 0"
    and "\<forall>a b c. cmp a b \<le> 0 \<and> cmp b c \<le> 0 \<longrightarrow> cmp a c \<le> 0"
  shows "sorted_wrt (\<lambda>a b. cmp a b \<le> 0) (js_sort cmp xs)"
    and "set (js_sort cmp xs) = set xs"
    and "length (js_sort cmp xs) = length xs"
proof -
  show "sorted_wrt (\<lambda>a b. cmp a b \<le> 0) (js_sort cmp xs)"
    unfolding js_sort_def
    by (induction xs) (simp_all add: sorted_insert_sorted [OF assms])
  show "set (js_sort cmp xs) = set xs"
    unfolding js_sort_def by (induction xs) (simp_all add: set_insert_sorted)
  show "length (js_sort cmp xs) = length xs"
    unfolding js_sort_def by (induction xs) (simp_all add: length_insert_sorted)
qed

lemma compare_codes_total: "compare_codes a b \<le> 0 \<or> compare_codes b a \<le> 0"
  by (induction a b rule: compare_codes.induct) auto

lemma compare_codes_Cons_le:
  "compare_codes (x # xs) (y # ys) \<le> 0 \<longleftrightarrow> x < y \<or> (x = y \<and> compare_codes xs ys \<le> 0)"
  by (cases "x < y"; cases "y < x") auto

lemma compare_codes_trans:
  "compare_codes a b \<le> 0 \<Longrightarrow> compare_codes b c \<le> 0 \<Longrightarrow> compare_codes a c \<le> 0"
proof (induction a arbitrary: b c)
  case Nil
  then show ?case by (cases c) simp_all
next
  case (Cons x xs)
  from Cons.prems(1) obtain y ys where b: "b = y # ys" by (cases b) auto
  from Cons.prems(2) b obtain z zs where c: "c = z # zs" by (cases c) auto
  from Cons.prems b c have 1: "x < y \<or> (x = y \<and> compare_codes xs ys \<le> 0)"
    and 2: "y < z \<or> (y = z \<and> compare_codes ys zs \<le> 0)"
    by (simp_all only: compare_codes_Cons_le)
  from 1 2 have "x < z \<or> (x = z \<and> compare_codes xs ys \<le> 0 \<and> compare_codes ys zs \<le> 0)"
    by auto
  then have "x < z \<or> (x = z \<and> compare_codes xs zs \<le> 0)"
    using Cons.IH by blast
  then show ?case unfolding c by (simp only: compare_codes_Cons_le)
qed

lemma those_strings: "those (map (json_string \<circ> JStr) rs) = Some rs"
  by (induction rs) simp_all

lemma match_json_array_nonempty: "match_json_array content = Some js \<Longrightarrow> content \<noteq> []"
  by (auto simp: match_json_array_def)

text \<open>
  Claim C7: a batch request for \<open>N\<close> texts (an API key is set and \<open>N > 0\<close>, so that a
  request is made) that is answered with status 200 and a chat completion whose content
  holds a JSON array of \<open>M\<close> strings, \<open>M \<noteq> N\<close>, returns the \<open>M\<close> strings, trimmed, in
  their order, each with source language \<open>LLM\<close>; it raises nothing, and logs the
  mismatch with the two lengths.
\<close>

theorem batch_length_mismatch:
  assumes "openrouterApiKey st = Some apiKey" and "apiKey \<noteq> []"
    and "texts \<noteq> []"
    and "fetch env (chat_request env apiKey
           (normalizeValue (llm_openrouterModel st) ''openai/gpt-4o-mini'')
           (batch_prompt env texts targetLang)) = Inr (200, data)"
    and "parseJSON env data = Inr response"
    and "chat_content env response = Inr (Some (JStr content))"
    and "match_json_array content = Some js"
    and "parseJSON env js = Inr (JArr (map JStr results))"
    and "length results \<noteq> length texts"
  shows "translateBatchWithLLM st env texts targetLang
    = ([Requested (chat_request env apiKey
           (normalizeValue (llm_openrouterModel st) ''openai/gpt-4o-mini'')
           (batch_prompt env texts targetLang)),
        Warned (length texts) (length results)],
       Inr (map (\<lambda>text. \<lparr>tv_text = js_trim text, tv_sourceLanguage = ''LLM''\<rparr>) results))"
proof -
  from assms(7) have ne: "content \<noteq> []" by (rule match_json_array_nonempty)
  have parsed: "parse_batch_results env (length texts) (JStr content)
    = ([Warned (length texts) (length results)],
       Inr (map (\<lambda>text. \<lparr>tv_text = js_trim text, tv_sourceLanguage = ''LLM''\<rparr>) results))"
    using assms(7,8,9) by (simp add: parse_batch_results_def those_strings Let_def)
  show ?thesis
    using assms(1-6) ne parsed
    by (simp add: translateBatchWithLLM_def makeOpenRouterTranslateRequest_def fetch_result_def
        js_falsy_def Let_def)
qed

theorem batch_length_mismatch_witness:
  "openrouterApiKey demo_settings = Some ''sk-1'' \<and> ''sk-1'' \<noteq> []
   \<and> [''one'', ''two'', ''three''] \<noteq> []
   \<and> length [''uno '', ''dos''] \<noteq> length [''one'', ''two'', ''three'']
   \<and> snd (translateBatchWithLLM demo_settings demo_llm_env [''one'', ''two'', ''three''] ''es'')
       = Inr [\<lparr>tv_text = ''uno'', tv_sourceLanguage = ''LLM''\<rparr>,
              \<lparr>tv_text = ''dos'', tv_sourceLanguage = ''LLM''\<rparr>]
   \<and> last (fst (translateBatchWithLLM demo_settings demo_llm_env [''one'', ''two'', ''three'']
        ''es'')) = Warned 3 2"
proof -
  have a: "openrouterApiKey demo_settings = Some ''sk-1''" by (simp add: demo_settings_def)
  have b: "''sk-1'' \<noteq> []" by simp
  have c: "[''one'', ''two'', ''three''] \<noteq> []" by simp
  have d: "fetch demo_llm_env (chat_request demo_llm_env ''sk-1''
           (normalizeValue (llm_openrouterModel demo_settings) ''openai/gpt-4o-mini'')
           (batch_prompt demo_llm_env [''one'', ''two'', ''three''] ''es'')) = Inr (200, demo_reply)"
    by (simp add: demo_llm_env_def chat_request_def)
  have e: "parseJSON demo_llm_env demo_reply
      = Inr (JObj [(''choices'', JArr [JObj [(''message'',
               JObj [(''content'', JStr demo_content)])]])])"
    by (simp add: demo_llm_env_def)
  have f: "chat_content demo_llm_env
       (JObj [(''choices'', JArr [JObj [(''message'',
               JObj [(''content'', JStr demo_content)])]])])
      = Inr (Some (JStr demo_content))"
    by (simp add: chat_content_def opt_chain_def)
  have g: "match_json_array demo_content = Some demo_array_text"
    by (simp add: match_json_array_def demo_content_def demo_array_text_def)
  have h: "parseJSON demo_llm_env demo_array_text = Inr (JArr (map JStr [''uno '', ''dos'']))"
    by (simp add: demo_llm_env_def demo_reply_def demo_array_text_def)
  have i: "length [''uno '', ''dos''] \<noteq> length [''one'', ''two'', ''three'']" by simp
  have t1: "js_trim ''uno '' = ''uno''" and t2: "js_trim ''dos'' = ''dos''"
    by (simp_all add: js_trim_def is_js_space_def)
  from batch_length_mismatch [OF a b c d e f g h i] a t1 t2 show ?thesis by simp
qed

text \<open>
  Claim C10: for the empty list of texts, the batch translation raises the missing
  credential error (after a toast) when the API key is unset or empty, and otherwise
  returns the empty list at once, without a request.
\<close>

theorem batch_empty_input:
  "(falsy (openrouterApiKey st) \<longrightarrow>
      translateBatchWithLLM st env [] targetLang
        = ([Notified ''OpenRouter API key is not set. Please configure it in settings.'' FAILURE],
           Inl (Error ''OpenRouter API key is not set'')))
   \<and> (\<not> falsy (openrouterApiKey st) \<longrightarrow>
      translateBatchWithLLM st env [] targetLang = ([], Inr []))"
  by (simp add: translateBatchWithLLM_def falsy_def Let_def split: option.split)

theorem batch_empty_input_witness:
  "falsy (openrouterApiKey (demo_settings\<lparr>openrouterApiKey := None\<rparr>))
   \<and> translateBatchWithLLM (demo_settings\<lparr>openrouterApiKey := None\<rparr>) demo_llm_env [] ''es''
       = ([Notified ''OpenRouter API key is not set. Please configure it in settings.'' FAILURE],
          Inl (Error ''OpenRouter API key is not set''))
   \<and> \<not> falsy (openrouterApiKey demo_settings)
   \<and> translateBatchWithLLM demo_settings demo_llm_env [] ''es'' = ([], Inr [])"
  using batch_empty_input [of "demo_settings\<lparr>openrouterApiKey := None\<rparr>" demo_llm_env "''es''"]
    batch_empty_input [of demo_settings demo_llm_env "''es''"]
  by (simp add: falsy_def demo_settings_def)

text \<open>
  Claim C9, as stated, fails where it has \<open>getModels\<close> fall back to the cache: with an
  empty cache \<open>getModels\<close> lists, and when the listing cannot be done (here no API key is
  set) it raises the error of the listing instead of returning the cached list.
\<close>

theorem getModels_fallback_counterexample:
  "getModels (demo_settings\<lparr>openrouterApiKey := None, openrouterModelsCache := Some []\<rparr>)
     demo_llm_env
   = (demo_settings\<lparr>openrouterApiKey := None, openrouterModelsCache := Some []\<rparr>, [],
      Inl (Error ''OpenRouter API key is not set''))"
  by (simp add: getModels_def fetchModels_def demo_settings_def)

text \<open>
  Claim C9, amended: a listing that succeeds (key set, status 200, a body that parses)
  returns the provider's models sorted by name and puts their identifiers and names in
  the cache; a listing that fails leaves the cache as it was. \<open>getModels\<close> returns the
  cached list without listing when the cache is not empty; with an empty or absent cache
  it is the listing, errors included. The comparison of names is assumed to be a total
  preorder.
\<close>

theorem model_listing:
  assumes "\<forall>a b. localeCompare env a b \<le> 0 \<or> localeCompare env b a \<le> 0"
    and "\<forall>a b c. localeCompare env a b \<le> 0 \<and> localeCompare env b c \<le> 0
           \<longrightarrow> localeCompare env a c \<le> 0"
  shows "(openrouterApiKey st = Some apiKey \<and> apiKey \<noteq> []
          \<and> fetch env (models_request apiKey) = Inr (200, data)
          \<and> parseModelsResponse env data = Inr ms
         \<longrightarrow> fetchModels st env
               = (st\<lparr>openrouterModelsCache := Some (map cache_entry (js_sort (by_name env) ms))\<rparr>,
                  [Requested (models_request apiKey)], Inr (js_sort (by_name env) ms))
             \<and> sorted_wrt (\<lambda>a b. localeCompare env (m_name a) (m_name b) \<le> 0)
                 (js_sort (by_name env) ms)
             \<and> set (js_sort (by_name env) ms) = set ms
             \<and> length (js_sort (by_name env) ms) = length ms)
    \<and> (fetchModels st env = (st', evs, Inl err) \<longrightarrow> st' = st)
    \<and> (openrouterModelsCache st = Some cached \<and> cached \<noteq> []
         \<longrightarrow> getModels st env = (st, [], Inr cached))
    \<and> (openrouterModelsCache st = None \<or> openrouterModelsCache st = Some []
         \<longrightarrow> getModels st env = fetchModels st env)"
proof -
  have total: "\<forall>a b. by_name env a b \<le> 0 \<or> by_name env b a \<le> 0"
    using assms(1) by (simp add: by_name_def)
  have trans: "\<forall>a b c. by_name env a b \<le> 0 \<and> by_name env b c \<le> 0 \<longrightarrow> by_name env a c \<le> 0"
    using assms(2) unfolding by_name_def by blast
  note sort = js_sort_props [OF total trans]
  have bn: "by_name env = (\<lambda>a b. localeCompare env (m_name a) (m_name b))"
    by (intro ext) (simp add: by_name_def)
  have listing: "fetchModels st env
               = (st\<lparr>openrouterModelsCache := Some (map cache_entry (js_sort (by_name env) ms))\<rparr>,
                  [Requested (models_request apiKey)], Inr (js_sort (by_name env) ms))
             \<and> sorted_wrt (\<lambda>a b. localeCompare env (m_name a) (m_name b) \<le> 0)
                 (js_sort (by_name env) ms)
             \<and> set (js_sort (by_name env) ms) = set ms
             \<and> length (js_sort (by_name env) ms) = length ms"
    if "openrouterApiKey st = Some apiKey" and "apiKey \<noteq> []"
      and "fetch env (models_request apiKey) = Inr (200, data)"
      and "parseModelsResponse env data = Inr ms"
  proof -
    have "fetchModels st env
               = (st\<lparr>openrouterModelsCache := Some (map cache_entry (js_sort (by_name env) ms))\<rparr>,
                  [Requested (models_request apiKey)], Inr (js_sort (by_name env) ms))"
      using that
      by (simp add: fetchModels_def fetchOpenRouterModels_def fetch_result_def Let_def)
    moreover have "sorted_wrt (\<lambda>a b. localeCompare env (m_name a) (m_name b) \<le> 0)
        (js_sort (by_name env) ms)"
      using sort(1) [of ms] by (simp add: bn)
    ultimately show ?thesis using sort(2,3) [of ms] by simp
  qed
  have failing: "st' = st" if "fetchModels st env = (st', evs, Inl err)"
    using that
    by (auto simp: fetchModels_def fetchOpenRouterModels_def Let_def
        split: option.splits if_splits sum.splits prod.splits)
  have hit: "getModels st env = (st, [], Inr cached)"
    if "openrouterModelsCache st = Some cached" and "cached \<noteq> []"
    using that by (simp add: getModels_def)
  have miss: "getModels st env = fetchModels st env"
    if "openrouterModelsCache st = None \<or> openrouterModelsCache st = Some []"
    using that by (auto simp: getModels_def)
  from listing failing hit miss show ?thesis by blast
qed

theorem model_listing_witness:
  "openrouterApiKey demo_settings = Some ''sk-1''
   \<and> fetch demo_llm_env (models_request ''sk-1'') = Inr (200, demo_models_reply)
   \<and> snd (snd (fetchModels demo_settings demo_llm_env))
       = Inr [\<lparr>m_id = ''a/y'', m_name = ''Alpha'', m_pricing = None\<rparr>,
              \<lparr>m_id = ''b/x'', m_name = ''Beta'', m_pricing = None\<rparr>]
   \<and> openrouterModelsCache (fst (fetchModels demo_settings demo_llm_env))
       = Some [\<lparr>m_id = ''a/y'', m_name = ''Alpha'', m_pricing = None\<rparr>,
               \<lparr>m_id = ''b/x'', m_name = ''Beta'', m_pricing = None\<rparr>]
   \<and> getModels (fst (fetchModels demo_settings demo_llm_env)) demo_llm_env
       = (fst (fetchModels demo_settings demo_llm_env), [],
          Inr [\<lparr>m_id = ''a/y'', m_name = ''Alpha'', m_pricing = None\<rparr>,
               \<lparr>m_id = ''b/x'', m_name = ''Beta'', m_pricing = None\<rparr>])"
proof -
  have cmp: "localeCompare demo_llm_env = code_unit_compare"
    by (simp add: demo_llm_env_def)
  have total: "\<forall>a b. localeCompare demo_llm_env a b \<le> 0 \<or> localeCompare demo_llm_env b a \<le> 0"
    unfolding cmp code_unit_compare_def by (simp add: compare_codes_total)
  have trans: "\<forall>a b c. localeCompare demo_llm_env a b \<le> 0 \<and> localeCompare demo_llm_env b c \<le> 0
         \<longrightarrow> localeCompare demo_llm_env a c \<le> 0"
    unfolding cmp code_unit_compare_def by (blast intro: compare_codes_trans)
  have sorted: "js_sort (by_name demo_llm_env)
      [\<lparr>m_id = ''b/x'', m_name = ''Beta'', m_pricing = None\<rparr>,
       \<lparr>m_id = ''a/y'', m_name = ''Alpha'', m_pricing = None\<rparr>]
    = [\<lparr>m_id = ''a/y'', m_name = ''Alpha'', m_pricing = None\<rparr>,
       \<lparr>m_id = ''b/x'', m_name = ''Beta'', m_pricing = None\<rparr>]"
    by (simp add: js_sort_def by_name_def cmp code_unit_compare_def)
  have key: "openrouterApiKey demo_settings = Some ''sk-1'' \<and> ''sk-1'' \<noteq> []
      \<and> fetch demo_llm_env (models_request ''sk-1'') = Inr (200, demo_models_reply)
      \<and> parseModelsResponse demo_llm_env demo_models_reply
          = Inr [\<lparr>m_id = ''b/x'', m_name = ''Beta'', m_pricing = None\<rparr>,
                 \<lparr>m_id = ''a/y'', m_name = ''Alpha'', m_pricing = None\<rparr>]"
    by (simp add: demo_settings_def demo_llm_env_def models_request_def)
  note ml = model_listing [OF total trans, of demo_settings "''sk-1''" demo_models_reply
      "[\<lparr>m_id = ''b/x'', m_name = ''Beta'', m_pricing = None\<rparr>,
        \<lparr>m_id = ''a/y'', m_name = ''Alpha'', m_pricing = None\<rparr>]"]
  from ml [THEN conjunct1, THEN mp, OF key, THEN conjunct1]
  have listed: "fetchModels demo_settings demo_llm_env
      = (demo_settings\<lparr>openrouterModelsCache := Some (map cache_entry
            [\<lparr>m_id = ''a/y'', m_name = ''Alpha'', m_pricing = None\<rparr>,
             \<lparr>m_id = ''b/x'', m_name = ''Beta'', m_pricing = None\<rparr>])\<rparr>,
         [Requested (models_request ''sk-1'')],
         Inr [\<lparr>m_id = ''a/y'', m_name = ''Alpha'', m_pricing = None\<rparr>,
              \<lparr>m_id = ''b/x'', m_name = ''Beta'', m_pricing = None\<rparr>])"
    unfolding sorted .
  have rest: "snd (snd (fetchModels demo_settings demo_llm_env))
       = Inr [\<lparr>m_id = ''a/y'', m_name = ''Alpha'', m_pricing = None\<rparr>,
              \<lparr>m_id = ''b/x'', m_name = ''Beta'', m_pricing = None\<rparr>]
   \<and> openrouterModelsCache (fst (fetchModels demo_settings demo_llm_env))
       = Some [\<lparr>m_id = ''a/y'', m_name = ''Alpha'', m_pricing = None\<rparr>,
               \<lparr>m_id = ''b/x'', m_name = ''Beta'', m_pricing = None\<rparr>]
   \<and> getModels (fst (fetchModels demo_settings demo_llm_env)) demo_llm_env
       = (fst (fetchModels demo_settings demo_llm_env), [],
          Inr [\<lparr>m_id = ''a/y'', m_name = ''Alpha'', m_pricing = None\<rparr>,
               \<lparr>m_id = ''b/x'', m_name = ''Beta'', m_pricing = None\<rparr>])"
    unfolding listed by (simp add: cache_entry_def getModels_def)
  from key rest show ?thesis by (intro conjI) (elim conjE, assumption)+
qed

end
